theory Spec2Isabelle
  imports Complex_Main "HOL-Library.Word" "HOL-Library.Signed_Division"
begin

unbundle bit_operations_syntax

section \<open>Machine integers of \<^verbatim>\<open>SDL_audioresample.c\<close>\<close>

text \<open>
  \<^verbatim>\<open>Sint64\<close> is a 64-bit word and \<^verbatim>\<open>Sint32\<close>, \<^verbatim>\<open>Uint32\<close> and \<^verbatim>\<open>int\<close> are 32-bit
  words. Addition, subtraction and multiplication wrap around (two's complement);
  comparisons of signed values read the words through \<open>sint\<close> (\<open><s\<close>, \<open>\<le>s\<close>);
  \<^verbatim>\<open>>>\<close> on a signed value is the arithmetic shift \<open>signed_drop_bit\<close>; \<^verbatim>\<open>/\<close> truncates
  towards zero (\<open>sdiv\<close> on the signed values; the code divides by positive values
  only where the theorems below apply). C leaves signed overflow undefined: the
  theorems that read a result as an integer say under which ranges nothing wraps.
\<close>

type_synonym Sint64 = "64 word"
type_synonym Sint32 = "32 word"
type_synonym Uint32 = "32 word"

definition SDL_MAX_SINT64 :: Sint64 where
  "SDL_MAX_SINT64 = 0x7FFFFFFFFFFFFFFF"

definition sdiv64 :: "Sint64 \<Rightarrow> Sint64 \<Rightarrow> Sint64" where
  "sdiv64 a b = word_of_int (sint a sdiv sint b)"

section \<open>Fixed-point planning helpers\<close>

text \<open>
  \<^verbatim>\<open>ResamplerAdd\<close> and \<^verbatim>\<open>ResamplerMul\<close> return \<^verbatim>\<open>-1\<close> without touching \<^verbatim>\<open>*ret\<close> when
  their guard fires, and \<^verbatim>\<open>0\<close> with the result stored otherwise: \<open>None\<close> is the
  return value \<^verbatim>\<open>-1\<close>, \<open>Some r\<close> is the return value \<^verbatim>\<open>0\<close> with \<^verbatim>\<open>*ret = r\<close>.
\<close>

definition ResamplerAdd :: "Sint64 \<Rightarrow> Sint64 \<Rightarrow> Sint64 option" where
  "ResamplerAdd a b =
     (if 0 <s b \<and> SDL_MAX_SINT64 - b <s a then None else Some (a + b))"

definition ResamplerMul :: "Sint64 \<Rightarrow> Sint64 \<Rightarrow> Sint64 option" where
  "ResamplerMul a b =
     (if 0 <s b \<and> sdiv64 SDL_MAX_SINT64 b <s a then None else Some (a * b))"

text \<open>
  The local \<^verbatim>\<open>output_offset\<close> of \<^verbatim>\<open>SDL_GetResamplerInputFrames\<close> after the \<^verbatim>\<open>if\<close>:
  the \<^verbatim>\<open>||\<close> evaluates the addition only when the multiplication returned 0.
\<close>

definition InputFrames_output_offset :: "Sint64 \<Rightarrow> Sint64 \<Rightarrow> Sint64 \<Rightarrow> Sint64" where
  "InputFrames_output_offset output_frames resample_rate resample_offset =
     (case ResamplerMul output_frames resample_rate of
        None \<Rightarrow> SDL_MAX_SINT64
      | Some m \<Rightarrow>
          (case ResamplerAdd m (- resample_rate + resample_offset + 0x100000000) of
             None \<Rightarrow> SDL_MAX_SINT64
           | Some s \<Rightarrow> s))"

definition SDL_GetResamplerInputFrames :: "Sint64 \<Rightarrow> Sint64 \<Rightarrow> Sint64 \<Rightarrow> Sint64" where
  "SDL_GetResamplerInputFrames output_frames resample_rate resample_offset =
     (let output_offset =
            InputFrames_output_offset output_frames resample_rate resample_offset;
          input_frames =
            (scast (scast (signed_drop_bit 32 output_offset) :: Sint32) :: Sint64)
      in if 0 <s input_frames then input_frames else 0)"

text \<open>
  The local \<^verbatim>\<open>input_offset\<close> of \<^verbatim>\<open>SDL_GetResamplerOutputFrames\<close> after the \<^verbatim>\<open>if\<close>.
\<close>

definition OutputFrames_input_offset :: "Sint64 \<Rightarrow> Sint64 \<Rightarrow> Sint64" where
  "OutputFrames_input_offset input_frames resample_offset =
     (case ResamplerMul input_frames 0x100000000 of
        None \<Rightarrow> SDL_MAX_SINT64
      | Some m \<Rightarrow>
          (case ResamplerAdd m (- resample_offset) of
             None \<Rightarrow> SDL_MAX_SINT64
           | Some s \<Rightarrow> s))"

text \<open>
  \<^verbatim>\<open>SDL_GetResamplerOutputFrames\<close> returns the frame count and writes the new offset
  through \<^verbatim>\<open>inout_resample_offset\<close>: the model returns the pair (returned value,
  stored offset).
\<close>

definition SDL_GetResamplerOutputFrames :: "Sint64 \<Rightarrow> Sint64 \<Rightarrow> Sint64 \<Rightarrow> Sint64 \<times> Sint64" where
  "SDL_GetResamplerOutputFrames input_frames resample_rate resample_offset =
     (let input_offset = OutputFrames_input_offset input_frames resample_offset;
          output_frames =
            (if 0 <s input_offset then sdiv64 (input_offset - 1) resample_rate + 1 else 0)
      in (output_frames, output_frames * resample_rate - input_offset))"

section \<open>Single-precision arithmetic as a parameter\<close>

text \<open>
  The type of \<^verbatim>\<open>float\<close> values is a type variable and the floating-point operations
  the code uses are the fields of a record: addition, subtraction, multiplication,
  division and negation, the conversion of an integer (\<open>fint\<close>), the value of a decimal
  literal (\<open>fconst\<close>), the constant \<^verbatim>\<open>SDL_PI_F\<close>, and the functions \<^verbatim>\<open>SDL_sinf\<close> and
  \<^verbatim>\<open>SDL_sqrtf\<close>. Whatever is proved holds for every interpretation of these
  operations, IEEE single precision among them. The series loop of \<^verbatim>\<open>bessel\<close> runs
  until a float term is no longer above \<^verbatim>\<open>1e-12f\<close>; that it ends is a property of the
  arithmetic, so the function is a field as well.
\<close>

record 'a fops =
  fadd :: "'a \<Rightarrow> 'a \<Rightarrow> 'a"
  fsub :: "'a \<Rightarrow> 'a \<Rightarrow> 'a"
  fmul :: "'a \<Rightarrow> 'a \<Rightarrow> 'a"
  fdiv :: "'a \<Rightarrow> 'a \<Rightarrow> 'a"
  fneg :: "'a \<Rightarrow> 'a"
  fint :: "int \<Rightarrow> 'a"
  fconst :: "rat \<Rightarrow> 'a"
  SDL_PI_F :: "'a"
  SDL_sinf :: "'a \<Rightarrow> 'a"
  SDL_sqrtf :: "'a \<Rightarrow> 'a"
  bessel :: "'a \<Rightarrow> 'a"

text \<open>
  A float array is a store from element addresses to values, and a pointer into it is
  an address (an \<open>int\<close>). The source and destination buffers are separate stores.
  Every read of the source buffer appends its address to \<open>src_reads\<close>, so that the
  addresses a call reads can be compared with the buffer its caller supplies.
\<close>

type_synonym 'a mem = "int \<Rightarrow> 'a"

record 'a kstate =
  dst_mem :: "'a mem"
  src_reads :: "int list"

section \<open>Constants\<close>

definition RESAMPLER_ZERO_CROSSINGS :: int where
  "RESAMPLER_ZERO_CROSSINGS = 5"

definition RESAMPLER_MAX_PADDING_FRAMES :: int where
  "RESAMPLER_MAX_PADDING_FRAMES = RESAMPLER_ZERO_CROSSINGS + 1"

definition RESAMPLER_SAMPLES_PER_FRAME :: int where
  "RESAMPLER_SAMPLES_PER_FRAME = RESAMPLER_ZERO_CROSSINGS * 2"

definition RESAMPLER_BITS_PER_SAMPLE :: nat where
  "RESAMPLER_BITS_PER_SAMPLE = 16"

definition RESAMPLER_BITS_PER_ZERO_CROSSING :: nat where
  "RESAMPLER_BITS_PER_ZERO_CROSSING = (RESAMPLER_BITS_PER_SAMPLE div 2) + 1"

definition RESAMPLER_SAMPLES_PER_ZERO_CROSSING :: int where
  "RESAMPLER_SAMPLES_PER_ZERO_CROSSING = 2 ^ RESAMPLER_BITS_PER_ZERO_CROSSING"

definition RESAMPLER_FILTER_INTERP_BITS :: nat where
  "RESAMPLER_FILTER_INTERP_BITS = 32 - RESAMPLER_BITS_PER_ZERO_CROSSING"

definition RESAMPLER_FILTER_INTERP_RANGE :: int where
  "RESAMPLER_FILTER_INTERP_RANGE = 2 ^ RESAMPLER_FILTER_INTERP_BITS"

definition RESAMPLER_FILTER_SIZE :: int where
  "RESAMPLER_FILTER_SIZE =
     RESAMPLER_SAMPLES_PER_FRAME * (RESAMPLER_SAMPLES_PER_ZERO_CROSSING + 1)"

definition KAISER_TABLE_SIZE :: int where
  "KAISER_TABLE_SIZE = RESAMPLER_ZERO_CROSSINGS * 4"

definition SDL_GetResamplerHistoryFrames :: int where
  "SDL_GetResamplerHistoryFrames = RESAMPLER_MAX_PADDING_FRAMES"

definition SDL_GetResamplerPaddingFrames :: "Sint64 \<Rightarrow> int" where
  "SDL_GetResamplerPaddingFrames resample_rate =
     (if resample_rate \<noteq> 0 then RESAMPLER_MAX_PADDING_FRAMES else 0)"

section \<open>The scalar per-frame kernels\<close>

text \<open>
  A kernel \<^verbatim>\<open>(src, dst, filter, interp, chans)\<close> takes the source store and the
  address \<^verbatim>\<open>src\<close>, the address \<^verbatim>\<open>dst\<close>, the filter store and the address
  \<^verbatim>\<open>filter\<close>, the weight and the channel count, and transforms the destination store
  and the log of source reads. The kernels are reached through a table of eight
  entries, with \<open>1 \<le> chans \<le> 8\<close>, where \<^verbatim>\<open>i * chans + chan\<close> is at most 79: the index
  arithmetic inside a kernel is on \<open>int\<close>.
\<close>

type_synonym 'a ResampleFrameFunc =
  "'a mem \<Rightarrow> int \<Rightarrow> int \<Rightarrow> 'a mem \<Rightarrow> int \<Rightarrow> 'a \<Rightarrow> int \<Rightarrow> 'a kstate \<Rightarrow> 'a kstate"

text \<open>
  The expression
  \<^verbatim>\<open>(filter[i] * (1.0f - interp)) + (filter[i + RESAMPLER_SAMPLES_PER_FRAME] * interp)\<close>,
  which the three kernels share.
\<close>

definition filter_scale :: "'a fops \<Rightarrow> 'a mem \<Rightarrow> int \<Rightarrow> 'a \<Rightarrow> nat \<Rightarrow> 'a" where
  "filter_scale ops filter' fp interp i =
     fadd ops (fmul ops (filter' (fp + int i)) (fsub ops (fconst ops 1) interp))
              (fmul ops (filter' (fp + (int i + RESAMPLER_SAMPLES_PER_FRAME))) interp)"

definition ResampleFrame_Generic :: "'a fops \<Rightarrow> 'a ResampleFrameFunc" where
  "ResampleFrame_Generic ops mem src dst filter' fp interp chans ks =
     (let scales = map (filter_scale ops filter' fp interp)
                     [0..<nat RESAMPLER_SAMPLES_PER_FRAME]
      in fold (\<lambda>chan ks.
           let (out, rd) =
                 fold (\<lambda>i (out, rd).
                        (fadd ops out
                           (fmul ops (mem (src + (int i * chans + int chan))) (scales ! i)),
                         rd @ [src + (int i * chans + int chan)]))
                   [0..<nat RESAMPLER_SAMPLES_PER_FRAME] (fconst ops 0, src_reads ks)
           in \<lparr>dst_mem = (dst_mem ks)(dst + int chan := out), src_reads = rd\<rparr>)
         [0..<nat chans] ks)"

definition ResampleFrame_Mono :: "'a fops \<Rightarrow> 'a ResampleFrameFunc" where
  "ResampleFrame_Mono ops mem src dst filter' fp interp chans ks =
     (let (out, rd) =
            fold (\<lambda>i (out, rd).
                   let scale = filter_scale ops filter' fp interp i
                   in (fadd ops out (fmul ops (mem (src + int i)) scale), rd @ [src + int i]))
              [0..<nat RESAMPLER_SAMPLES_PER_FRAME] (fconst ops 0, src_reads ks)
      in \<lparr>dst_mem = (dst_mem ks)(dst + 0 := out), src_reads = rd\<rparr>)"

definition ResampleFrame_Stereo :: "'a fops \<Rightarrow> 'a ResampleFrameFunc" where
  "ResampleFrame_Stereo ops mem src dst filter' fp interp chans ks =
     (let (out0, out1, rd) =
            fold (\<lambda>i (out0, out1, rd).
                   let scale = filter_scale ops filter' fp interp i
                   in (fadd ops out0 (fmul ops (mem (src + (int i * 2 + 0))) scale),
                       fadd ops out1 (fmul ops (mem (src + (int i * 2 + 1))) scale),
                       rd @ [src + (int i * 2 + 0), src + (int i * 2 + 1)]))
              [0..<nat RESAMPLER_SAMPLES_PER_FRAME] (fconst ops 0, fconst ops 0, src_reads ks)
      in \<lparr>dst_mem = (dst_mem ks)(dst + 0 := out0, dst + 1 := out1), src_reads = rd\<rparr>)"

text \<open>
  A kernel keeps to its window when, entered with the pointer \<^verbatim>\<open>src\<close> and \<open>chans\<close>
  channels, it reads the source store only inside the ten frames
  \<^verbatim>\<open>src[0 .. 10*chans - 1]\<close> that start there.
\<close>

definition reads_within_window :: "'a ResampleFrameFunc \<Rightarrow> int \<Rightarrow> bool" where
  "reads_within_window k chans \<longleftrightarrow>
     (\<forall>mem src dst filter' fp interp ks.
        set (src_reads (k mem src dst filter' fp interp chans ks)) \<subseteq>
          set (src_reads ks) \<union> {src ..< src + 10 * chans})"

text \<open>
  The contract of the specification for one output sample, in its words: the sum over
  the taps \<open>i = 0..9\<close>, in increasing order from \<open>0.0\<close>, of
  \<open>src[i\<cdot>C + c] \<cdot> ((1 - \<alpha>)\<cdot>f\<^sub>0[i] + \<alpha>\<cdot>f\<^sub>1[i])\<close>, where \<open>f\<^sub>0\<close> is \<^verbatim>\<open>filter[0..9]\<close> and
  \<open>f\<^sub>1\<close> is \<^verbatim>\<open>filter[10..19]\<close>.
\<close>

definition spec_sample :: "'a fops \<Rightarrow> 'a mem \<Rightarrow> int \<Rightarrow> 'a mem \<Rightarrow> int \<Rightarrow> 'a \<Rightarrow> int \<Rightarrow> int \<Rightarrow> 'a" where
  "spec_sample ops mem src filter' fp alpha C c =
     foldl (\<lambda>acc i.
              fadd ops acc
                (fmul ops (mem (src + (int i * C + c)))
                   (fadd ops (fmul ops (fsub ops (fconst ops 1) alpha) (filter' (fp + int i)))
                             (fmul ops alpha (filter' (fp + 10 + int i))))))
       (fconst ops 0) [0..<10]"

text \<open>
  The sum the kernels accumulate for channel \<open>c\<close> of a frame of \<open>C\<close> channels, with
  the operands in the order of the source, and the addresses they read for it.
\<close>

definition tap_sum :: "'a fops \<Rightarrow> 'a mem \<Rightarrow> int \<Rightarrow> 'a mem \<Rightarrow> int \<Rightarrow> 'a \<Rightarrow> int \<Rightarrow> int \<Rightarrow> 'a" where
  "tap_sum ops mem src filter' fp interp C c =
     foldl (\<lambda>acc i. fadd ops acc
              (fmul ops (mem (src + (int i * C + c))) (filter_scale ops filter' fp interp i)))
       (fconst ops 0) [0..<10]"

definition tap_addrs :: "int \<Rightarrow> int \<Rightarrow> int \<Rightarrow> int list" where
  "tap_addrs src C c = map (\<lambda>i. src + (int i * C + c)) [0..<10]"

section \<open>The filter bank generator\<close>

text \<open>
  \<^verbatim>\<open>CubicCoef\<close> fills \<^verbatim>\<open>interp[0..3]\<close>: the model returns the four values in index
  order. \<^verbatim>\<open>CubicInterp\<close> reads four consecutive elements of a store from an address.
\<close>

definition CubicCoef :: "'a fops \<Rightarrow> 'a \<Rightarrow> 'a list" where
  "CubicCoef ops frac' =
     (let frac2 = fmul ops frac' frac';
          frac3 = fmul ops frac' frac2;
          interp3 = fadd ops (fmul ops (fneg ops (fconst ops 0.1666666667)) frac')
                             (fmul ops (fconst ops 0.1666666667) frac3);
          interp2 = fsub ops (fadd ops frac' (fmul ops (fconst ops 0.5) frac2))
                             (fmul ops (fconst ops 0.5) frac3);
          interp0 = fsub ops (fadd ops (fmul ops (fneg ops (fconst ops 0.3333333333)) frac')
                                       (fmul ops (fconst ops 0.5) frac2))
                             (fmul ops (fconst ops 0.1666666667) frac3);
          interp1 = fsub ops (fsub ops (fsub ops (fconst ops 1) interp3) interp2) interp0
      in [interp0, interp1, interp2, interp3])"

definition CubicInterp :: "'a fops \<Rightarrow> 'a list \<Rightarrow> 'a mem \<Rightarrow> int \<Rightarrow> 'a" where
  "CubicInterp ops interp data dp =
     fadd ops (fadd ops (fadd ops (fmul ops (data (dp + 0)) (interp ! 0))
                                  (fmul ops (data (dp + 1)) (interp ! 1)))
                        (fmul ops (data (dp + 2)) (interp ! 2)))
              (fmul ops (data (dp + 3)) (interp ! 3))"

definition GenerateKaiserTable :: "'a fops \<Rightarrow> 'a \<Rightarrow> 'a mem \<Rightarrow> int \<Rightarrow> 'a mem" where
  "GenerateKaiserTable ops beta table tablelen =
     (let bessel_beta = bessel ops beta;
          table1 = fold (\<lambda>i table.
                      table(int i + 1 :=
                        fdiv ops
                          (bessel ops (fmul ops beta (SDL_sqrtf ops
                             (fsub ops (fconst ops 1)
                                (fdiv ops (fint ops (int i * int i))
                                          (fint ops (tablelen * tablelen)))))))
                          bessel_beta))
                    [0..<nat (tablelen + 1)] table;
          table2 = table1(0 := table1 2);
          table3 = table2(tablelen + 2 := fconst ops 0)
      in table3(tablelen + 3 := fconst ops 0))"

text \<open>
  \<^verbatim>\<open>GenerateResamplerFilter\<close> writes the static array \<^verbatim>\<open>ResamplerFilter\<close>. Its loops
  are given body by body. \<open>GenerateResamplerFilter_tap\<close> is the body of the inner
  loop over \<^verbatim>\<open>j\<close>, which carries the table and the alternating \<^verbatim>\<open>s\<close>;
  \<open>GenerateResamplerFilter_row\<close> is the body of the outer loop over \<^verbatim>\<open>i\<close>;
  \<open>GenerateResamplerFilter_pad\<close> is the body of the final loop, which zeroes the outer
  taps of the first and the last row. The local array \<^verbatim>\<open>kaiser\<close> is not initialised:
  \<open>kaiser0\<close> is what the stack holds.
\<close>

definition GenerateResamplerFilter_tap ::
  "'a fops \<Rightarrow> 'a mem \<Rightarrow> 'a list \<Rightarrow> int \<Rightarrow> nat \<Rightarrow> nat \<Rightarrow> 'a mem \<times> 'a \<Rightarrow> 'a mem \<times> 'a" where
  "GenerateResamplerFilter_tap ops kaiser interp winglen i j =
     (\<lambda>(table, s).
        let n = int j * RESAMPLER_SAMPLES_PER_ZERO_CROSSING + int i;
            v = (if n \<noteq> 0
                 then fdiv ops
                        (fmul ops
                           (CubicInterp ops interp kaiser ((n * KAISER_TABLE_SIZE) div winglen))
                           s)
                        (fint ops n)
                 else fconst ops 1);
            lwing = (int i * RESAMPLER_SAMPLES_PER_FRAME) + (RESAMPLER_ZERO_CROSSINGS - 1)
                      - int j;
            rwing = (RESAMPLER_FILTER_SIZE - 1) - lwing
        in (table(lwing := v, rwing := v), fneg ops s))"

definition GenerateResamplerFilter_row ::
  "'a fops \<Rightarrow> 'a mem \<Rightarrow> 'a \<Rightarrow> int \<Rightarrow> nat \<Rightarrow> 'a mem \<Rightarrow> 'a mem" where
  "GenerateResamplerFilter_row ops kaiser sinc_scale winglen i table =
     (let s = fdiv ops (SDL_sinf ops (fmul ops (fint ops (int i)) sinc_scale)) sinc_scale;
          interp = CubicCoef ops
                     (fdiv ops (fint ops ((int i * KAISER_TABLE_SIZE) mod winglen))
                               (fint ops winglen))
      in fst (fold (GenerateResamplerFilter_tap ops kaiser interp winglen i)
                [0..<nat RESAMPLER_ZERO_CROSSINGS] (table, s)))"

definition GenerateResamplerFilter_pad :: "'a fops \<Rightarrow> nat \<Rightarrow> 'a mem \<Rightarrow> 'a mem" where
  "GenerateResamplerFilter_pad ops i table =
     (let rwing = int i + RESAMPLER_ZERO_CROSSINGS;
          lwing = (RESAMPLER_FILTER_SIZE - 1) - rwing
      in table(lwing := fconst ops 0, rwing := fconst ops 0))"

definition GenerateResamplerFilter :: "'a fops \<Rightarrow> 'a mem \<Rightarrow> 'a mem \<Rightarrow> 'a mem" where
  "GenerateResamplerFilter ops kaiser0 ResamplerFilter0 =
     (let dB = fconst ops 80;
          beta = fmul ops (fconst ops 0.1102) (fsub ops dB (fconst ops 8.7));
          winglen = RESAMPLER_SAMPLES_PER_ZERO_CROSSING * RESAMPLER_ZERO_CROSSINGS;
          sinc_scale = fdiv ops (SDL_PI_F ops) (fint ops RESAMPLER_SAMPLES_PER_ZERO_CROSSING);
          kaiser = GenerateKaiserTable ops beta kaiser0 KAISER_TABLE_SIZE;
          table1 = fold (GenerateResamplerFilter_row ops kaiser sinc_scale winglen)
                     [0..<nat RESAMPLER_SAMPLES_PER_ZERO_CROSSING] ResamplerFilter0
      in fold (GenerateResamplerFilter_pad ops) [0..<nat RESAMPLER_ZERO_CROSSINGS] table1)"

text \<open>
  A table is mirrored at an index when the entry there equals the entry at the index
  counted from the other end of the bank.
\<close>

definition mirror_at :: "'a mem \<Rightarrow> int \<Rightarrow> bool" where
  "mirror_at table a \<longleftrightarrow> table a = table ((RESAMPLER_FILTER_SIZE - 1) - a)"

section \<open>The static state and its setup\<close>

text \<open>
  The statics of the file: the one-shot flag \<^verbatim>\<open>setup\<close> of
  \<^verbatim>\<open>SDL_SetupAudioResampler\<close>, the filter bank \<^verbatim>\<open>ResamplerFilter\<close> and the table
  \<^verbatim>\<open>ResampleFrame[8]\<close> of kernel pointers (\<open>None\<close> is the null pointer).
  The SSE kernel is not modelled: \<open>sse\<close> is \<open>None\<close> for a build without
  \<^verbatim>\<open>SDL_SSE_INTRINSICS\<close> or a processor without SSE, and \<open>Some k\<close> with \<open>k\<close> standing for
  \<^verbatim>\<open>ResampleFrame_Generic_SSE\<close> otherwise.
\<close>

record 'a resampler_globals =
  setup_done :: bool
  ResamplerFilter :: "'a mem"
  ResampleFrame :: "int \<Rightarrow> 'a ResampleFrameFunc option"

definition SDL_SetupAudioResampler ::
  "'a fops \<Rightarrow> 'a ResampleFrameFunc option \<Rightarrow> 'a mem \<Rightarrow> 'a resampler_globals \<Rightarrow>
     'a resampler_globals" where
  "SDL_SetupAudioResampler ops sse kaiser0 g =
     (if setup_done g then g
      else
        let filter' = GenerateResamplerFilter ops kaiser0 (ResamplerFilter g);
            frame1 = fold (\<lambda>i t. t(int i := Some (ResampleFrame_Generic ops))) [0..<8]
                       (ResampleFrame g);
            frame2 = frame1(0 := Some (ResampleFrame_Mono ops));
            frame3 = frame2(1 := Some (ResampleFrame_Stereo ops));
            frame4 = (case sse of
                        None \<Rightarrow> frame3
                      | Some k \<Rightarrow> fold (\<lambda>i t. t(int i := Some k)) [0..<8] frame3)
        in \<lparr>setup_done = True, ResamplerFilter = filter', ResampleFrame = frame4\<rparr>)"

section \<open>The resample driver\<close>

text \<open>
  The variables of the loop of \<^verbatim>\<open>SDL_ResampleAudio\<close>: \<^verbatim>\<open>srcpos\<close>, the pointer \<^verbatim>\<open>dst\<close>,
  the destination store with the log of source reads, and whether every
  \<^verbatim>\<open>SDL_assert\<close> met so far held. An assertion is recorded, it does not stop the call.
\<close>

record 'a loop_state =
  srcpos :: Sint64
  dstp :: int
  kst :: "'a kstate"
  asserts :: bool

text \<open>
  One iteration of the loop. \<^verbatim>\<open>srcindex * chans\<close> is a product of two \<^verbatim>\<open>int\<close>s and
  wraps at 32 bits; the pointer arithmetic around it is on addresses.
\<close>

definition ResampleAudio_body ::
  "'a fops \<Rightarrow> 'a mem \<Rightarrow> 'a ResampleFrameFunc \<Rightarrow> Sint32 \<Rightarrow> 'a mem \<Rightarrow> int \<Rightarrow> Sint32 \<Rightarrow> Sint64 \<Rightarrow>
     'a loop_state \<Rightarrow> 'a loop_state" where
  "ResampleAudio_body ops ResamplerFilter' resample_frame chans mem src inframes resample_rate ls =
     (let srcindex = (scast (signed_drop_bit 32 (srcpos ls)) :: Sint32);
          srcfraction = (ucast (srcpos ls AND 0xFFFFFFFF) :: Uint32);
          filter' = uint (drop_bit RESAMPLER_FILTER_INTERP_BITS srcfraction
                            * word_of_int RESAMPLER_SAMPLES_PER_FRAME);
          interp = fmul ops
                     (fint ops (uint (srcfraction AND
                                        (word_of_int RESAMPLER_FILTER_INTERP_RANGE - 1))))
                     (fdiv ops (fconst ops 1) (fint ops RESAMPLER_FILTER_INTERP_RANGE));
          frame = src + sint (srcindex * chans)
      in \<lparr>srcpos = srcpos ls + resample_rate,
          dstp = dstp ls + sint chans,
          kst = resample_frame mem frame (dstp ls) ResamplerFilter' filter' interp (sint chans)
                  (kst ls),
          asserts = (asserts ls \<and> -1 \<le>s srcindex \<and> srcindex <s inframes)\<rparr>)"

text \<open>
  What a call leaves behind: the destination store, the value stored into
  \<^verbatim>\<open>*inout_resample_offset\<close>, the addresses read from the source store, and whether the
  assertions held.
\<close>

record 'a resample_result =
  res_dst :: "'a mem"
  res_offset :: Sint64
  res_reads :: "int list"
  res_asserts :: bool

text \<open>
  \<^verbatim>\<open>SDL_ResampleAudio\<close>. The read of \<^verbatim>\<open>ResampleFrame[chans - 1]\<close> outside the eight
  entries of the table, and the call through a null entry, have no behaviour: the
  result is \<open>None\<close>. \<open>src\<close> is the address of the first live input frame.
\<close>

definition SDL_ResampleAudio ::
  "'a fops \<Rightarrow> 'a resampler_globals \<Rightarrow> Sint32 \<Rightarrow> 'a mem \<Rightarrow> int \<Rightarrow> Sint32 \<Rightarrow> 'a mem \<Rightarrow> int \<Rightarrow> Sint32 \<Rightarrow>
     Sint64 \<Rightarrow> Sint64 \<Rightarrow> 'a resample_result option" where
  "SDL_ResampleAudio ops g chans mem src inframes dmem dst outframes resample_rate resample_offset =
     (if 0 \<le> sint (chans - 1) \<and> sint (chans - 1) < 8
      then (case ResampleFrame g (sint (chans - 1)) of
              None \<Rightarrow> None
            | Some resample_frame \<Rightarrow>
                let src' = src - sint (word_of_int (RESAMPLER_ZERO_CROSSINGS - 1) * chans);
                    ls = fold (\<lambda>i. ResampleAudio_body ops (ResamplerFilter g) resample_frame
                                     chans mem src' inframes resample_rate)
                           [0..<nat (sint outframes)]
                           \<lparr>srcpos = resample_offset, dstp = dst,
                            kst = \<lparr>dst_mem = dmem, src_reads = []\<rparr>,
                            asserts = (0 <s resample_rate)\<rparr>
                in Some \<lparr>res_dst = dst_mem (kst ls),
                         res_offset = srcpos ls - push_bit 32 (scast inframes),
                         res_reads = src_reads (kst ls),
                         res_asserts = asserts ls\<rparr>)
      else None)"

section \<open>Concrete operations and states for the instances\<close>

text \<open>
  The integers as an interpretation of the arithmetic: enough to run the code on
  concrete inputs, with address-valued source samples.
\<close>

definition int_ops :: "int fops" where
  "int_ops = \<lparr>fadd = (+), fsub = (-), fmul = (*), fdiv = (div), fneg = uminus,
      fint = id, fconst = (\<lambda>q. \<lfloor>q\<rfloor>), SDL_PI_F = 3, SDL_sinf = id, SDL_sqrtf = id,
      bessel = id\<rparr>"

definition fresh_globals :: "int resampler_globals" where
  "fresh_globals = \<lparr>setup_done = False, ResamplerFilter = (\<lambda>_. 0),
      ResampleFrame = (\<lambda>_. None)\<rparr>"

lemmas resampler_macros =
  RESAMPLER_ZERO_CROSSINGS_def RESAMPLER_MAX_PADDING_FRAMES_def
  RESAMPLER_SAMPLES_PER_FRAME_def RESAMPLER_BITS_PER_SAMPLE_def
  RESAMPLER_BITS_PER_ZERO_CROSSING_def RESAMPLER_SAMPLES_PER_ZERO_CROSSING_def
  RESAMPLER_FILTER_INTERP_BITS_def RESAMPLER_FILTER_INTERP_RANGE_def
  RESAMPLER_FILTER_SIZE_def KAISER_TABLE_SIZE_def

section \<open>Signed readings of the word operations\<close>

lemma sint_range64: "- (2^63) \<le> sint (x::Sint64) \<and> sint x < 2^63"
  using sint_ge [of x] sint_lt [of x] by simp

lemma sint_MAX: "sint SDL_MAX_SINT64 = 2^63 - 1"
  by (simp add: SDL_MAX_SINT64_def)

lemma sint_scast_down: "sint (scast (y::Sint64) :: Sint32) = signed_take_bit 31 (sint y)"
  by (simp add: signed_scast_eq)

lemma sint_scast_up: "sint (scast (y::Sint32) :: Sint64) = sint y"
  by (simp add: sint_up_scast is_up)

lemma shift32_range:
  "- (2^63) \<le> (k::int) \<Longrightarrow> k < 2^63 \<Longrightarrow> - (2^31) \<le> k div 2^32 \<and> k div 2^32 < 2^31"
  by (simp, linarith)

lemma sint_narrow:
  "sint (scast (scast (signed_drop_bit 32 (x::Sint64)) :: Sint32) :: Sint64) = sint x div 2^32"
proof -
  have "- (2^31) \<le> sint x div 2^32 \<and> sint x div 2^32 < 2^31"
    using sint_range64 [of x] shift32_range by blast
  then show ?thesis
    by (simp add: sint_scast_up sint_scast_down sint_signed_drop_bit_eq drop_bit_eq_div
        signed_take_bit_int_eq_self)
qed

lemma sint_sdiv_MAX:
  assumes b: "0 < sint b"
  shows "sint (sdiv64 SDL_MAX_SINT64 b) = (2^63 - 1) div sint b"
proof -
  have sd: "sint SDL_MAX_SINT64 sdiv sint b = (2^63 - 1) div sint b"
    using b by (simp add: sint_MAX signed_divide_int_def sgn_if)
  have "0 \<le> ((2::int)^63 - 1) div sint b"
    using b by (simp add: pos_imp_zdiv_nonneg_iff)
  moreover have "((2::int)^63 - 1) div sint b \<le> (2^63 - 1) div 1"
    using b by (intro zdiv_mono2) simp_all
  ultimately show ?thesis
    unfolding sdiv64_def sd by (simp add: sint_sbintrunc' signed_take_bit_int_eq_self)
qed

lemma sint_MAX_minus: "0 < sint b \<Longrightarrow> sint (SDL_MAX_SINT64 - b) = 2^63 - 1 - sint b"
  using sint_range64 [of b]
  by (simp add: sint_word_diff sint_MAX signed_take_bit_int_eq_self)

lemma InputFrames_sint:
  "sint (SDL_GetResamplerInputFrames n r off) =
     max 0 (sint (InputFrames_output_offset n r off) div 2^32)"
  by (simp add: SDL_GetResamplerInputFrames_def Let_def word_sless_alt sint_narrow max_def)


section \<open>The saturation guards\<close>

lemma le_div_iff_int: "0 < (b::int) \<Longrightarrow> a \<le> k div b \<longleftrightarrow> a * b \<le> k"
proof
  assume b: "0 < b" and h: "a \<le> k div b"
  have "a * b \<le> (k div b) * b" using h b by (simp add: mult_right_mono)
  also have "\<dots> \<le> k" using b by (metis div_mult_mod_eq le_add_same_cancel1 pos_mod_sign)
  finally show "a * b \<le> k" .
next
  assume b: "0 < b" and h: "a * b \<le> k"
  have "(a * b) div b \<le> k div b" using h b by (rule zdiv_mono1)
  then show "a \<le> k div b" using b by simp
qed

lemma ResamplerMul_None_iff:
  "ResamplerMul a b = None \<longleftrightarrow> 0 < sint b \<and> 2^63 - 1 < sint a * sint b"
proof (cases "0 < sint b")
  case True
  then show ?thesis
    using le_div_iff_int [of "sint b" "sint a" "2^63 - 1"]
    by (simp add: ResamplerMul_def word_sless_alt sint_sdiv_MAX not_le [symmetric] del: not_le)
next
  case False
  then show ?thesis by (simp add: ResamplerMul_def word_sless_alt)
qed

lemma ResamplerMul_SomeD: "ResamplerMul a b = Some m \<Longrightarrow> m = a * b"
  by (simp add: ResamplerMul_def split: if_splits)

lemma ResamplerAdd_SomeD: "ResamplerAdd a b = Some s \<Longrightarrow> s = a + b"
  by (simp add: ResamplerAdd_def split: if_splits)

lemma ResamplerMul_Some:
  assumes "ResamplerMul a b = Some m" "0 < sint b" "0 \<le> sint a"
  shows "sint m = sint a * sint b \<and> sint a * sint b \<le> 2^63 - 1"
proof -
  have n: "ResamplerMul a b \<noteq> None" using assms(1) by simp
  then have le: "sint a * sint b \<le> 2^63 - 1"
    using assms(2) by (simp add: ResamplerMul_None_iff)
  have m: "m = a * b" using assms(1) by (simp add: ResamplerMul_def split: if_splits)
  have "0 \<le> sint a * sint b" using assms by simp
  then have "sint (a * b) = sint a * sint b"
    using le by (simp add: sint_word_mult signed_take_bit_int_eq_self)
  then show ?thesis using m le by simp
qed

lemma ResamplerAdd_None_iff:
  "ResamplerAdd a b = None \<longleftrightarrow> 0 < sint b \<and> 2^63 - 1 < sint a + sint b"
proof (cases "0 < sint b")
  case True
  then show ?thesis
    by (auto simp add: ResamplerAdd_def word_sless_alt sint_MAX_minus)
next
  case False
  then show ?thesis by (simp add: ResamplerAdd_def word_sless_alt)
qed

lemma ResamplerAdd_Some:
  assumes "ResamplerAdd a b = Some s" "- (2^63) \<le> sint a + sint b"
  shows "sint s = sint a + sint b \<and> sint a + sint b \<le> 2^63 - 1"
proof -
  have n: "ResamplerAdd a b \<noteq> None" using assms(1) by simp
  have le: "sint a + sint b \<le> 2^63 - 1"
  proof (cases "0 < sint b")
    case True
    then show ?thesis using n by (simp add: ResamplerAdd_None_iff)
  next
    case False
    then show ?thesis using sint_range64 [of a] by simp
  qed
  have s: "s = a + b" using assms(1) by (simp add: ResamplerAdd_def split: if_splits)
  have "sint (a + b) = sint a + sint b"
    using le assms(2) by (simp add: sint_word_add signed_take_bit_int_eq_self)
  then show ?thesis using s le by simp
qed

lemma sint_word_of_int_range:
  "- (2^63) \<le> k \<Longrightarrow> k < 2^63 \<Longrightarrow> sint (word_of_int k :: Sint64) = k"
  by (simp add: sint_sbintrunc' signed_take_bit_int_eq_self)

lemma offset_term_word:
  "- r + off + 0x100000000 = (word_of_int (sint off + 2^32 - sint r) :: Sint64)"
  by simp

lemma sint_offset_term:
  assumes "- (2^63) \<le> sint off + 2^32 - sint r" "sint off + 2^32 - sint r < 2^63"
  shows "sint (- r + off + 0x100000000 :: Sint64) = sint off + 2^32 - sint r"
  unfolding offset_term_word using assms by (rule sint_word_of_int_range)

lemma InputFrames_saturated:
  "InputFrames_output_offset n r off = SDL_MAX_SINT64 \<Longrightarrow>
   SDL_GetResamplerInputFrames n r off = 0x7FFFFFFF"
  by (simp add: SDL_GetResamplerInputFrames_def SDL_MAX_SINT64_def word_sless_alt)


section \<open>Ceiling division and the residual offset\<close>

lemma ceil_div_int:
  assumes r: "0 < (r::int)"
  shows "\<lceil>real_of_int x / real_of_int r\<rceil> = (x - 1) div r + 1"
proof -
  define q where "q = (x - 1) div r"
  define m where "m = (x - 1) mod r"
  have x: "x - 1 = r * q + m" by (simp add: q_def m_def)
  have m: "0 \<le> m" "m < r" using r by (simp_all add: m_def)
  have "- x = r * (- (q + 1)) + (r - 1 - m)" using x by (simp add: algebra_simps)
  moreover have "0 \<le> r - 1 - m" "r - 1 - m < r" using m by simp_all
  ultimately have "(- x) div r = - (q + 1)" by (rule int_div_pos_eq)
  moreover have "\<lceil>real_of_int x / real_of_int r\<rceil> = - ((- x) div r)"
    by (rule ceiling_divide_eq_div)
  ultimately show ?thesis by (simp add: q_def)
qed

lemma ceil_residual:
  assumes r: "0 < (r::int)"
  shows "0 \<le> ((x - 1) div r + 1) * r - x \<and> ((x - 1) div r + 1) * r - x < r"
proof -
  define q where "q = (x - 1) div r"
  define m where "m = (x - 1) mod r"
  have x: "x - 1 = q * r + m" by (simp add: q_def m_def)
  have m: "0 \<le> m" "m < r" using r by (simp_all add: m_def)
  have "(q + 1) * r - x = r - 1 - m" using x by (simp add: algebra_simps)
  then show ?thesis using m unfolding q_def by simp
qed

lemma OutputFrames_count_pos:
  assumes x: "0 < sint x" and r: "0 < sint r"
  shows "sint (sdiv64 (x - 1) r + 1) = (sint x - 1) div sint r + 1"
proof -
  have x1: "sint (x - 1) = sint x - 1"
    using x sint_range64 [of x] by (simp add: sint_word_diff signed_take_bit_int_eq_self)
  have sd: "sint (x - 1) sdiv sint r = (sint x - 1) div sint r"
    using x r x1 by (simp add: signed_divide_int_def sgn_if)
  have q0: "0 \<le> (sint x - 1) div sint r"
    using x r by (simp add: pos_imp_zdiv_nonneg_iff)
  have "(sint x - 1) div sint r \<le> (sint x - 1) div 1"
    using x r by (intro zdiv_mono2) simp_all
  then have q1: "(sint x - 1) div sint r < 2^63 - 1"
    using sint_range64 [of x] by simp
  have "sdiv64 (x - 1) r + 1 = word_of_int ((sint x - 1) div sint r + 1)"
    by (simp add: sdiv64_def sd)
  moreover have "sint (word_of_int ((sint x - 1) div sint r + 1) :: Sint64) =
      (sint x - 1) div sint r + 1"
    using q0 q1 by (intro sint_word_of_int_range) simp_all
  ultimately show ?thesis by simp
qed

lemma OutputFrames_residual_pos:
  assumes x: "0 < sint x" and r: "0 < sint r"
  shows "sint ((sdiv64 (x - 1) r + 1) * r - x) =
           ((sint x - 1) div sint r + 1) * sint r - sint x"
proof -
  let ?o = "sdiv64 (x - 1) r + 1"
  have o: "sint ?o = (sint x - 1) div sint r + 1"
    using x r by (rule OutputFrames_count_pos)
  have "?o * r - x = word_of_int (sint ?o * sint r - sint x)" by simp
  moreover have "- (2^63) \<le> sint ?o * sint r - sint x \<and> sint ?o * sint r - sint x < 2^63"
    using ceil_residual [OF r, of "sint x"] sint_range64 [of r] unfolding o by simp
  ultimately show ?thesis unfolding o [symmetric]
    by (simp only: sint_word_of_int_range)
qed

lemma OutputFrames_fst:
  "fst (SDL_GetResamplerOutputFrames M r off) =
     (if 0 < sint (OutputFrames_input_offset M off)
      then sdiv64 (OutputFrames_input_offset M off - 1) r + 1 else 0)"
  by (simp add: SDL_GetResamplerOutputFrames_def Let_def word_sless_alt)

lemma OutputFrames_snd:
  "snd (SDL_GetResamplerOutputFrames M r off) =
     fst (SDL_GetResamplerOutputFrames M r off) * r - OutputFrames_input_offset M off"
  by (simp add: SDL_GetResamplerOutputFrames_def Let_def)

lemma sint_mult_2p32:
  assumes "0 \<le> sint (M::Sint64)" "sint M \<le> 2^31 - 1"
  shows "sint (M * 0x100000000) = sint M * 2^32"
proof -
  have "sint M * 2^32 < 2^63" using assms(2) by simp
  moreover have "- (2^63) \<le> sint M * 2^32" using assms(1) by simp
  ultimately show ?thesis
    by (simp add: sint_word_mult signed_take_bit_int_eq_self)
qed

lemma sint_uminus: "sint (x::Sint64) \<noteq> - (2^63) \<Longrightarrow> sint (- x) = - sint x"
  using sint_range64 [of x] by (simp add: sint_word_minus signed_take_bit_int_eq_self)

text \<open>The value of input_offset for a non-negative frame count.\<close>

lemma OutputFrames_input_offset_cases:
  assumes M: "0 \<le> sint M" and o: "sint off \<noteq> - (2^63)"
  shows "(sint (OutputFrames_input_offset M off) = sint M * 2^32 - sint off \<and>
          sint M \<le> 2^31 - 1 \<and> sint M * 2^32 - sint off \<le> 2^63 - 1) \<or>
         (OutputFrames_input_offset M off = SDL_MAX_SINT64 \<and>
          (2^31 - 1 < sint M \<or> 2^63 - 1 < sint M * 2^32 - sint off))"
proof (cases "ResamplerMul M 0x100000000")
  case None
  then have "2^31 - 1 < sint M" by (simp add: ResamplerMul_None_iff)
  then show ?thesis using None by (simp add: OutputFrames_input_offset_def)
next
  case (Some m)
  have p: "0 < sint (0x100000000 :: Sint64)" by simp
  have "sint m = sint M * sint (0x100000000 :: Sint64) \<and>
        sint M * sint (0x100000000 :: Sint64) \<le> 2^63 - 1"
    using ResamplerMul_Some [OF Some p M] by blast
  then have m: "sint m = sint M * 2^32" "sint M * 2^32 \<le> 2^63 - 1"
    by simp_all
  then have M': "sint M \<le> 2^31 - 1" by simp
  have no: "sint (- off) = - sint off" using o by (rule sint_uminus)
  show ?thesis
  proof (cases "ResamplerAdd m (- off)")
    case None
    then have "2^63 - 1 < sint M * 2^32 - sint off"
      by (simp add: ResamplerAdd_None_iff no m)
    then show ?thesis using None Some by (simp add: OutputFrames_input_offset_def)
  next
    case (Some x)
    have "- (2^63) \<le> sint m + sint (- off)"
      using m M sint_range64 [of off] by (simp add: no)
    from ResamplerAdd_Some [OF Some this]
    have "sint x = sint M * 2^32 - sint off" "sint M * 2^32 - sint off \<le> 2^63 - 1"
      by (simp_all add: no m)
    then show ?thesis
      using Some \<open>ResamplerMul M 0x100000000 = Some m\<close> M'
      by (simp add: OutputFrames_input_offset_def)
  qed
qed

lemma OutputFrames_fst_nonneg:
  assumes r: "0 < sint r"
  shows "0 \<le> sint (fst (SDL_GetResamplerOutputFrames M r off))"
proof (cases "0 < sint (OutputFrames_input_offset M off)")
  case True
  then have "0 \<le> (sint (OutputFrames_input_offset M off) - 1) div sint r"
    using r by (simp add: pos_imp_zdiv_nonneg_iff)
  then show ?thesis
    using True r by (simp add: OutputFrames_fst OutputFrames_count_pos)
next
  case False
  then show ?thesis by (simp add: OutputFrames_fst)
qed

lemma OutputFrames_count_ge:
  assumes r: "0 < sint r" and k: "0 \<le> k"
    and x: "k * sint r < sint (OutputFrames_input_offset M off)"
  shows "k + 1 \<le> sint (fst (SDL_GetResamplerOutputFrames M r off))"
proof -
  let ?x = "OutputFrames_input_offset M off"
  have "0 \<le> k * sint r" using r k by simp
  then have pos: "0 < sint ?x" using x by simp
  have "k * sint r \<le> sint ?x - 1" using x by simp
  then have "k \<le> (sint ?x - 1) div sint r"
    using r by (simp add: le_div_iff_int)
  then show ?thesis
    using pos r by (simp add: OutputFrames_fst OutputFrames_count_pos)
qed

lemma sint_word_of_int_wrap_low:
  assumes "- (2^64) - 2^63 \<le> k" "k < - (2^63)"
  shows "sint (word_of_int k :: Sint64) = k + 2^64"
proof -
  have a: "(k + 2^63) mod 2^64 = (k + 2^63 + 2^64) mod (2^64::int)"
    by (rule mod_add_self2 [symmetric])
  have b: "(k + 2^63 + 2^64) mod (2^64::int) = k + 2^63 + 2^64"
    using assms by (intro mod_pos_pos_trivial) simp_all
  have "sint (word_of_int k :: Sint64) = (k + 2^63) mod 2^64 - 2^63"
    by (simp add: int_word_sint)
  then show ?thesis using a b by simp
qed

lemma mult_div_gt: "(v::int) - 2^32 < (v div 2^32) * 2^32"
proof -
  have "v = (v div 2^32) * 2^32 + v mod 2^32" by simp
  moreover have "v mod 2^32 < 2^32" by simp
  ultimately show ?thesis by linarith
qed

lemma offset_term_no_wrap:
  assumes r: "0 < sint r" and o: "\<bar>sint off\<bar> < sint r" and n: "1 \<le> sint n"
    and hm: "ResamplerMul n r = Some m"
    and hs: "ResamplerAdd m (- r + off + 0x100000000) = Some s"
  shows "sint s = (sint n - 1) * sint r + sint off + 2^32"
proof -
  let ?b = "- r + off + 0x100000000 :: Sint64"
  let ?bt = "sint off + 2^32 - sint r"
  have n0: "0 \<le> sint n" using n by simp
  have o1: "- sint r < sint off" and o2: "sint off < sint r" using o by linarith+
  have m: "sint m = sint n * sint r"
    using ResamplerMul_Some [OF hm r n0] by blast
  have "sint r * 1 \<le> sint r * sint n"
    using r n by (intro mult_left_mono) simp_all
  then have mr: "sint r \<le> sint m" using m by (simp add: mult.commute)
  have hi: "?bt < 2^63" using o2 by simp
  have lo: "- (2^63) \<le> ?bt"
  proof (rule ccontr)
    assume "\<not> - (2^63) \<le> ?bt"
    then have lt: "?bt < - (2^63)" by simp
    have "- (2^64) - 2^63 \<le> ?bt" using o1 sint_range64 [of r] by simp
    then have b: "sint ?b = ?bt + 2^64"
      unfolding offset_term_word using lt by (rule sint_word_of_int_wrap_low)
    have "0 < sint ?b" using b o1 sint_range64 [of r] by simp
    moreover have "2^63 - 1 < sint m + sint ?b"
      using b mr sint_range64 [of off] by simp
    ultimately have "ResamplerAdd m ?b = None"
      by (simp only: ResamplerAdd_None_iff)
    then show False using hs by simp
  qed
  have b: "sint ?b = ?bt" using lo hi by (rule sint_offset_term)
  have "- (2^63) \<le> sint m + sint ?b"
    using b mr sint_range64 [of off] by simp
  then have "sint s = sint m + sint ?b"
    using ResamplerAdd_Some [OF hs] by blast
  then show ?thesis using m b by (simp add: algebra_simps)
qed


lemma InputFrames_bounds:
  "0 \<le> sint (SDL_GetResamplerInputFrames n r off) \<and>
   sint (SDL_GetResamplerInputFrames n r off) \<le> 2^31 - 1"
proof -
  let ?x = "InputFrames_output_offset n r off"
  have "sint ?x div 2^32 < 2^31"
    using sint_range64 [of ?x] shift32_range by blast
  then show ?thesis
    by (simp add: InputFrames_sint)
qed


section \<open>Range of the planned input frame count\<close>

text \<open>
  Claim C10. For all arguments, the value returned by \<^verbatim>\<open>SDL_GetResamplerInputFrames\<close>
  lies in \<open>[0, 2^31 - 1]\<close>: the shifted intermediate passes through the signed 32-bit
  cast before the lower clamp at zero.
\<close>

theorem InputFrames_in_int32_range:
  "0 \<le> sint (SDL_GetResamplerInputFrames output_frames resample_rate resample_offset) \<and>
   sint (SDL_GetResamplerInputFrames output_frames resample_rate resample_offset) \<le> 2^31 - 1"
proof -
  let ?x = "InputFrames_output_offset output_frames resample_rate resample_offset"
  have shifted: "sint ?x div 2^32 \<le> 2^31 - 1"
    using sint_range64 [of ?x] shift32_range [of "sint ?x"] by simp
  have "sint (SDL_GetResamplerInputFrames output_frames resample_rate resample_offset) =
        max 0 (sint ?x div 2^32)"
    by (rule InputFrames_sint)
  then show ?thesis using shifted by simp
qed

section \<open>The overflow planning scenario\<close>

text \<open>
  Claim C6 says that \<^verbatim>\<open>SDL_GetResamplerInputFrames\<close> called with
  \<^verbatim>\<open>output_frames = INT64_MAX/2\<close>, \<^verbatim>\<open>resample_rate = 1 << 32\<close> and
  \<^verbatim>\<open>resample_offset = 0\<close> returns \<^verbatim>\<open>INT64_MAX\<close>. The multiplication guard fires and
  \<^verbatim>\<open>output_offset\<close> is \<^verbatim>\<open>INT64_MAX\<close>, but the function returns that value shifted right
  by 32 and narrowed to \<^verbatim>\<open>Sint32\<close>: it returns \<open>2^31 - 1\<close>, not \<^verbatim>\<open>INT64_MAX\<close>.
\<close>

theorem InputFrames_overflow_not_INT64_MAX:
  "SDL_GetResamplerInputFrames (sdiv64 SDL_MAX_SINT64 2) (push_bit 32 1) 0 \<noteq> SDL_MAX_SINT64"
  by (simp add: SDL_GetResamplerInputFrames_def InputFrames_output_offset_def
      ResamplerMul_def ResamplerAdd_def sdiv64_def SDL_MAX_SINT64_def word_sless_alt
      signed_divide_int_def)

text \<open>
  Claim C6, amended. With \<^verbatim>\<open>output_frames = INT64_MAX/2\<close>, \<^verbatim>\<open>resample_rate = 1 << 32\<close>
  and \<^verbatim>\<open>resample_offset = 0\<close> the intermediate \<^verbatim>\<open>output_offset\<close> saturates to
  \<^verbatim>\<open>INT64_MAX\<close> and \<^verbatim>\<open>SDL_GetResamplerInputFrames\<close> returns \<open>2^31 - 1\<close>
  (\<^verbatim>\<open>INT32_MAX\<close>).
\<close>

theorem InputFrames_overflow_INT32_MAX:
  "InputFrames_output_offset (sdiv64 SDL_MAX_SINT64 2) (push_bit 32 1) 0 = SDL_MAX_SINT64 \<and>
   SDL_GetResamplerInputFrames (sdiv64 SDL_MAX_SINT64 2) (push_bit 32 1) 0 = 0x7FFFFFFF"
  by (simp add: SDL_GetResamplerInputFrames_def InputFrames_output_offset_def
      ResamplerMul_def ResamplerAdd_def sdiv64_def SDL_MAX_SINT64_def word_sless_alt
      signed_divide_int_def)

section \<open>Input frames needed for a number of output frames\<close>

text \<open>
  Claim C4 says that for \<open>N \<ge> 1\<close>, \<open>rate > 0\<close> and no saturation,
  \<^verbatim>\<open>SDL_GetResamplerInputFrames(N, rate, offset)\<close> returns
  \<open>max(0, ((N - 1)\<cdot>rate + offset + (2^32 - rate)) >> 32)\<close>. The code multiplies
  \<open>N\<close> (not \<open>N - 1\<close>) by the rate and then adds \<open>- rate + offset + 2^32\<close>, so the
  value shifted is \<open>(N - 1)\<cdot>rate + offset + 2^32\<close>, as the comment of the function says:
  the claim's formula subtracts the rate once too often. At \<open>N = 1\<close>,
  \<open>rate = 2^32\<close>, \<open>offset = 0\<close> neither guard fires, the function returns 1 and the
  claim's formula gives 0.
\<close>

theorem InputFrames_value_counterexample:
  "ResamplerMul 1 0x100000000 = Some 0x100000000 \<and>
   ResamplerAdd 0x100000000 (- 0x100000000 + 0 + 0x100000000) = Some 0x100000000 \<and>
   sint (SDL_GetResamplerInputFrames 1 0x100000000 0) \<noteq>
     max 0 (((sint (1::Sint64) - 1) * sint (0x100000000::Sint64) + sint (0::Sint64)
             + (2^32 - sint (0x100000000::Sint64))) div 2^32)"
  by (simp add: SDL_GetResamplerInputFrames_def InputFrames_output_offset_def
      ResamplerMul_def ResamplerAdd_def sdiv64_def SDL_MAX_SINT64_def word_sless_alt
      signed_divide_int_def)

text \<open>
  Claim C4, amended. For every output count \<open>N \<ge> 1\<close>, \<open>rate > 0\<close> and offset whose
  term \<open>offset + 2^32 - rate\<close> fits in 64 bits: when neither the multiply nor the add
  saturates, \<^verbatim>\<open>SDL_GetResamplerInputFrames(N, rate, offset)\<close> returns
  \<open>max(0, ((N - 1)\<cdot>rate + offset + 2^32) >> 32)\<close> with \<open>>>\<close> the arithmetic (floor)
  shift, the sum being exact; on saturation in either step the intermediate is
  \<^verbatim>\<open>INT64_MAX\<close> and the result is \<open>2^31 - 1\<close>, so still clamped below at zero.
\<close>

theorem InputFrames_value:
  assumes n: "1 \<le> sint n" and r: "0 < sint r"
    and lo: "- (2^63) \<le> sint off + 2^32 - sint r"
    and hi: "sint off + 2^32 - sint r < 2^63"
  shows "(\<forall>m s. ResamplerMul n r = Some m \<and>
                 ResamplerAdd m (- r + off + 0x100000000) = Some s \<longrightarrow>
            sint (SDL_GetResamplerInputFrames n r off) =
              max 0 (((sint n - 1) * sint r + sint off + 2^32) div 2^32)) \<and>
         (ResamplerMul n r = None \<or>
           (\<exists>m. ResamplerMul n r = Some m \<and>
                ResamplerAdd m (- r + off + 0x100000000) = None) \<longrightarrow>
            InputFrames_output_offset n r off = SDL_MAX_SINT64 \<and>
            SDL_GetResamplerInputFrames n r off = 0x7FFFFFFF)"
proof (intro conjI allI impI)
  fix m s
  assume h: "ResamplerMul n r = Some m \<and> ResamplerAdd m (- r + off + 0x100000000) = Some s"
  let ?b = "- r + off + 0x100000000 :: Sint64"
  have b: "sint ?b = sint off + 2^32 - sint r" using lo hi by (rule sint_offset_term)
  from h have hm: "ResamplerMul n r = Some m"
    and hs: "ResamplerAdd m ?b = Some s" by blast+
  have n0: "0 \<le> sint n" using n by simp
  have m: "sint m = sint n * sint r"
    using ResamplerMul_Some [OF hm r n0] by blast
  have "sint r \<le> sint n * sint r" using n r by simp
  then have "- (2^63) \<le> sint m + sint ?b"
    using m b sint_range64 [of off] by simp
  then have s: "sint s = sint m + sint ?b"
    using ResamplerAdd_Some [OF hs] by blast
  have "InputFrames_output_offset n r off = s"
    using hm hs by (simp add: InputFrames_output_offset_def)
  then have "sint (SDL_GetResamplerInputFrames n r off) = max 0 (sint s div 2^32)"
    by (simp add: InputFrames_sint)
  moreover have "sint s = (sint n - 1) * sint r + sint off + 2^32"
    using s m b by (simp add: algebra_simps)
  ultimately show "sint (SDL_GetResamplerInputFrames n r off) =
      max 0 (((sint n - 1) * sint r + sint off + 2^32) div 2^32)"
    by simp
next
  assume "ResamplerMul n r = None \<or>
    (\<exists>m. ResamplerMul n r = Some m \<and> ResamplerAdd m (- r + off + 0x100000000) = None)"
  then show "InputFrames_output_offset n r off = SDL_MAX_SINT64"
    by (auto simp add: InputFrames_output_offset_def)
  then show "SDL_GetResamplerInputFrames n r off = 0x7FFFFFFF"
    by (rule InputFrames_saturated)
qed

theorem InputFrames_value_witness:
  "sint (SDL_GetResamplerInputFrames 3 0x180000000 0x40000000) = 4 \<and>
   SDL_GetResamplerInputFrames 0x100000000 0x100000000 0 = 0x7FFFFFFF"
  using InputFrames_value [of 3 "0x180000000" "0x40000000"]
    InputFrames_value [of "0x100000000" "0x100000000" 0]
  by (simp add: ResamplerMul_def ResamplerAdd_def sdiv64_def SDL_MAX_SINT64_def word_sless_alt
      signed_divide_int_def)

section \<open>Output frames producible from a number of input frames\<close>

text \<open>
  Claim C5. For every input count \<open>M\<close>, \<open>rate > 0\<close> and offset for which no saturation
  triggers, \<^verbatim>\<open>SDL_GetResamplerOutputFrames(M, rate, &offset)\<close>, with
  \<open>input_offset = (M << 32) - offset\<close> (in 64-bit arithmetic), returns 0 when
  \<open>input_offset \<le> 0\<close> and otherwise
  \<open>ceil(input_offset / rate) = (input_offset - 1) / rate + 1\<close>, and in both cases stores
  \<open>out \<cdot> rate - input_offset\<close> (in 64-bit arithmetic; exactly so when
  \<open>input_offset > 0\<close>), where \<open>out\<close> is the returned value.
\<close>

theorem OutputFrames_value:
  assumes r: "0 < sint r"
    and hm: "ResamplerMul M 0x100000000 = Some m"
    and hx: "ResamplerAdd m (- off) = Some x"
  shows "x = push_bit 32 M - off \<and>
         sint (fst (SDL_GetResamplerOutputFrames M r off)) =
           (if sint x \<le> 0 then 0 else \<lceil>real_of_int (sint x) / real_of_int (sint r)\<rceil>) \<and>
         (0 < sint x \<longrightarrow>
            \<lceil>real_of_int (sint x) / real_of_int (sint r)\<rceil> = (sint x - 1) div sint r + 1) \<and>
         snd (SDL_GetResamplerOutputFrames M r off) =
           fst (SDL_GetResamplerOutputFrames M r off) * r - x \<and>
         (0 < sint x \<longrightarrow>
            sint (snd (SDL_GetResamplerOutputFrames M r off)) =
              sint (fst (SDL_GetResamplerOutputFrames M r off)) * sint r - sint x)"
proof -
  have io: "OutputFrames_input_offset M off = x"
    using hm hx by (simp add: OutputFrames_input_offset_def)
  have m: "m = M * 0x100000000"
    using hm by (rule ResamplerMul_SomeD)
  have "x = m + (- off)"
    using hx by (rule ResamplerAdd_SomeD)
  then have x: "x = push_bit 32 M - off"
    using m by (simp add: push_bit_eq_mult)
  have c: "sint (fst (SDL_GetResamplerOutputFrames M r off)) =
           (if sint x \<le> 0 then 0 else \<lceil>real_of_int (sint x) / real_of_int (sint r)\<rceil>)"
  proof (cases "sint x \<le> 0")
    case True
    then show ?thesis by (simp add: OutputFrames_fst io)
  next
    case False
    then have "sint (fst (SDL_GetResamplerOutputFrames M r off)) = (sint x - 1) div sint r + 1"
      using r by (simp add: OutputFrames_fst io OutputFrames_count_pos)
    then show ?thesis using False ceil_div_int [OF r, of "sint x"] by simp
  qed
  have s: "snd (SDL_GetResamplerOutputFrames M r off) =
           fst (SDL_GetResamplerOutputFrames M r off) * r - x"
    by (simp add: OutputFrames_snd io)
  have e: "0 < sint x \<longrightarrow> sint (snd (SDL_GetResamplerOutputFrames M r off)) =
              sint (fst (SDL_GetResamplerOutputFrames M r off)) * sint r - sint x"
    using r by (simp add: OutputFrames_snd OutputFrames_fst io OutputFrames_residual_pos
        OutputFrames_count_pos)
  show ?thesis using x c s e ceil_div_int [OF r] by blast
qed

theorem OutputFrames_value_witness:
  "sint (fst (SDL_GetResamplerOutputFrames 4 0x180000000 0x40000000)) = 3 \<and>
   snd (SDL_GetResamplerOutputFrames 4 0x180000000 0x40000000) = 0xC0000000 \<and>
   fst (SDL_GetResamplerOutputFrames 0 0x180000000 0x40000000) = 0 \<and>
   snd (SDL_GetResamplerOutputFrames 0 0x180000000 0x40000000) = 0x40000000"
  using OutputFrames_value [of "0x180000000" 4 "0x400000000" "0x40000000" "0x3C0000000"]
    OutputFrames_value [of "0x180000000" 0 0 "0x40000000" "- 0x40000000"]
  by (simp add: ResamplerMul_def ResamplerAdd_def sdiv64_def SDL_MAX_SINT64_def word_sless_alt
      signed_divide_int_def SDL_GetResamplerOutputFrames_def OutputFrames_input_offset_def)


section \<open>The offset range invariant\<close>

text \<open>
  Claim C9. \<^verbatim>\<open>SDL_GetResamplerOutputFrames\<close> preserves the offset range: for every
  \<open>rate > 0\<close> and \<open>input_frames \<ge> 0\<close>, if on entry \<open>0 \<le> offset < rate\<close>, then on
  return the stored offset is again in \<open>[0, rate)\<close> and the returned count is
  non-negative. No hypothesis excludes saturation: the second instance of the witness
  takes the saturating path of the multiplication.
\<close>

theorem OutputFrames_offset_invariant:
  assumes r: "0 < sint r" and M: "0 \<le> sint M"
    and o0: "0 \<le> sint off" and o1: "sint off < sint r"
  shows "0 \<le> sint (fst (SDL_GetResamplerOutputFrames M r off)) \<and>
         0 \<le> sint (snd (SDL_GetResamplerOutputFrames M r off)) \<and>
         sint (snd (SDL_GetResamplerOutputFrames M r off)) < sint r"
proof (cases "0 < sint (OutputFrames_input_offset M off)")
  case True
  let ?x = "OutputFrames_input_offset M off"
  have "sint (snd (SDL_GetResamplerOutputFrames M r off)) =
          ((sint ?x - 1) div sint r + 1) * sint r - sint ?x"
    using True r by (simp add: OutputFrames_snd OutputFrames_fst OutputFrames_residual_pos)
  then show ?thesis
    using ceil_residual [OF r, of "sint ?x"] OutputFrames_fst_nonneg [OF r] by simp
next
  case False
  let ?x = "OutputFrames_input_offset M off"
  have om: "sint off \<noteq> - (2^63)" using o0 by simp
  have x: "sint ?x = sint M * 2^32 - sint off"
    using OutputFrames_input_offset_cases [OF M om] False by (auto simp add: sint_MAX)
  have "0 \<le> sint M * 2^32" using M by simp
  then have "sint ?x \<noteq> - (2^63)" using x sint_range64 [of off] o0 by simp
  then have "sint (- ?x) = - sint ?x" by (rule sint_uminus)
  moreover have "snd (SDL_GetResamplerOutputFrames M r off) = - ?x"
    using False by (simp add: OutputFrames_snd OutputFrames_fst)
  ultimately have s: "sint (snd (SDL_GetResamplerOutputFrames M r off)) = - sint ?x" by simp
  have "- sint ?x \<le> sint off" using x \<open>0 \<le> sint M * 2^32\<close> by simp
  then show ?thesis
    using s False o1 OutputFrames_fst_nonneg [OF r] by simp
qed

theorem OutputFrames_offset_invariant_witness:
  "sint (fst (SDL_GetResamplerOutputFrames 4 0x180000000 0x40000000)) = 3 \<and>
   sint (snd (SDL_GetResamplerOutputFrames 4 0x180000000 0x40000000)) = 0xC0000000 \<and>
   0 \<le> sint (snd (SDL_GetResamplerOutputFrames 0x80000000 0x180000000 0x40000000)) \<and>
   sint (snd (SDL_GetResamplerOutputFrames 0x80000000 0x180000000 0x40000000)) < 0x180000000"
  using OutputFrames_offset_invariant [of "0x180000000" 4 "0x40000000"]
    OutputFrames_offset_invariant [of "0x180000000" "0x80000000" "0x40000000"]
  by (simp add: ResamplerMul_def ResamplerAdd_def sdiv64_def SDL_MAX_SINT64_def word_sless_alt
      signed_divide_int_def SDL_GetResamplerOutputFrames_def OutputFrames_input_offset_def)


section \<open>Input-output planning duality\<close>

text \<open>
  Claim C7 says that for every \<open>rate > 0\<close>, every offset with \<open>|offset| < rate\<close> and
  every \<open>N \<ge> 0\<close>, planning the input for \<open>N\<close> outputs and then the output for that
  input gives at least \<open>N\<close>. When \<^verbatim>\<open>SDL_GetResamplerInputFrames\<close> saturates it returns
  \<open>2^31 - 1\<close> frames, which cannot produce a larger \<open>N\<close>: at \<open>N = 2^62\<close>,
  \<open>rate = 2^32\<close>, \<open>offset = 0\<close> the round trip returns \<open>2^31 - 1 < N\<close>.
\<close>

theorem planning_duality_counterexample:
  "0 < sint (0x100000000 :: Sint64) \<and> \<bar>sint (0 :: Sint64)\<bar> < sint (0x100000000 :: Sint64) \<and>
   0 \<le> sint (0x4000000000000000 :: Sint64) \<and>
   \<not> sint (0x4000000000000000 :: Sint64) \<le>
     sint (fst (SDL_GetResamplerOutputFrames
       (SDL_GetResamplerInputFrames 0x4000000000000000 0x100000000 0) 0x100000000 0))"
  by (simp add: ResamplerMul_def ResamplerAdd_def sdiv64_def SDL_MAX_SINT64_def word_sless_alt
      signed_divide_int_def SDL_GetResamplerOutputFrames_def OutputFrames_input_offset_def
      SDL_GetResamplerInputFrames_def InputFrames_output_offset_def)

text \<open>
  Claim C7, amended. For every \<open>rate > 0\<close>, every offset with \<open>|offset| < rate\<close> and
  every \<open>N \<ge> 0\<close> for which neither the multiply nor the add of
  \<^verbatim>\<open>SDL_GetResamplerInputFrames\<close> saturates: with
  \<open>M = SDL_GetResamplerInputFrames(N, rate, offset)\<close>, the count returned by
  \<^verbatim>\<open>SDL_GetResamplerOutputFrames(M, rate, &offset)\<close> is at least \<open>N\<close>.
\<close>

theorem planning_duality:
  assumes r: "0 < sint r" and o: "\<bar>sint off\<bar> < sint r" and n: "0 \<le> sint n"
    and hm: "ResamplerMul n r = Some m"
    and hs: "ResamplerAdd m (- r + off + 0x100000000) = Some s"
  shows "sint n \<le>
    sint (fst (SDL_GetResamplerOutputFrames (SDL_GetResamplerInputFrames n r off) r off))"
proof (cases "sint n = 0")
  case True
  then show ?thesis using OutputFrames_fst_nonneg [OF r] by simp
next
  case False
  then have n1: "1 \<le> sint n" using n by simp
  let ?V = "(sint n - 1) * sint r + sint off + 2^32"
  let ?M = "SDL_GetResamplerInputFrames n r off"
  let ?x = "OutputFrames_input_offset ?M off"
  have s: "sint s = ?V" using r o n1 hm hs by (rule offset_term_no_wrap)
  have "InputFrames_output_offset n r off = s"
    using hm hs by (simp add: InputFrames_output_offset_def)
  then have M: "sint ?M = max 0 (?V div 2^32)"
    using s by (simp add: InputFrames_sint)
  have M0: "0 \<le> sint ?M" using M by simp
  have om: "sint off \<noteq> - (2^63)" using o sint_range64 [of r] by auto
  have k0: "0 \<le> sint n - 1" using n1 by simp
  have x: "(sint n - 1) * sint r < sint ?x"
  proof -
    from OutputFrames_input_offset_cases [OF M0 om]
    consider (A) "sint ?x = sint ?M * 2^32 - sint off" | (B) "?x = SDL_MAX_SINT64"
      by blast
    then show ?thesis
    proof cases
      case A
      have "?V div 2^32 \<le> sint ?M" unfolding M by (rule max.cobounded2)
      then have "(?V div 2^32) * 2^32 \<le> sint ?M * 2^32"
        by (rule mult_right_mono) simp
      moreover have "?V - 2^32 < (?V div 2^32) * 2^32" by (rule mult_div_gt)
      ultimately show ?thesis using A by simp
    next
      case B
      have "sint n * sint r \<le> 2^63 - 1"
        using ResamplerMul_Some [OF hm r n] by blast
      moreover have "(sint n - 1) * sint r = sint n * sint r - sint r"
        by (simp add: algebra_simps)
      ultimately show ?thesis using B r by (simp add: sint_MAX)
    qed
  qed
  have "(sint n - 1) + 1 \<le> sint (fst (SDL_GetResamplerOutputFrames ?M r off))"
    using r k0 x by (rule OutputFrames_count_ge)
  then show ?thesis by simp
qed

theorem planning_duality_witness:
  "sint (3::Sint64) \<le>
     sint (fst (SDL_GetResamplerOutputFrames
       (SDL_GetResamplerInputFrames 3 0x180000000 0x40000000) 0x180000000 0x40000000))"
  using planning_duality [of "0x180000000" "0x40000000" 3 "0x480000000" "0x440000000"]
  by (simp add: ResamplerMul_def ResamplerAdd_def sdiv64_def SDL_MAX_SINT64_def word_sless_alt
      signed_divide_int_def)

section \<open>What the scalar kernels compute\<close>

lemma fold_acc_log:
  "fold (\<lambda>i (out, rd). (f out i, rd @ [A i])) [0..<n] (out0, rd0) =
     (foldl f out0 [0..<n], rd0 @ map A [0..<n])"
  by (induction n) simp_all

lemma fold_acc2_log:
  "fold (\<lambda>i (out0, out1, rd). (f out0 i, g out1 i, rd @ [A i, B i])) [0..<n] (a, b, rd0) =
     (foldl f a [0..<n], foldl g b [0..<n], rd0 @ concat (map (\<lambda>i. [A i, B i]) [0..<n]))"
  by (induction n) simp_all

lemma taps10: "nat RESAMPLER_SAMPLES_PER_FRAME = 10"
  by (simp add: resampler_macros)

lemma Generic_channel:
  "(let (out, rd) =
       fold (\<lambda>i (out, rd).
              (fadd ops out
                 (fmul ops (mem (src + (int i * chans + int chan)))
                    (map (filter_scale ops filter' fp interp) [0..<10] ! i)),
               rd @ [src + (int i * chans + int chan)]))
         [0..<10] (fconst ops 0, src_reads ks)
     in \<lparr>dst_mem = (dst_mem ks)(dst + int chan := out), src_reads = rd\<rparr>) =
   \<lparr>dst_mem = (dst_mem ks)(dst + int chan := tap_sum ops mem src filter' fp interp chans (int chan)),
    src_reads = src_reads ks @ tap_addrs src chans (int chan)\<rparr>"
proof -
  have "fold (\<lambda>i (out, rd).
              (fadd ops out
                 (fmul ops (mem (src + (int i * chans + int chan)))
                    (map (filter_scale ops filter' fp interp) [0..<10] ! i)),
               rd @ [src + (int i * chans + int chan)]))
         [0..<10] (fconst ops 0, src_reads ks) =
        fold (\<lambda>i (out, rd).
              (fadd ops out
                 (fmul ops (mem (src + (int i * chans + int chan)))
                    (filter_scale ops filter' fp interp i)),
               rd @ [src + (int i * chans + int chan)]))
         [0..<10] (fconst ops 0, src_reads ks)"
    by (rule fold_cong) (auto simp del: upt_Suc)
  then show ?thesis
    by (simp only: fold_acc_log [where f = "\<lambda>out i. fadd ops out
                 (fmul ops (mem (src + (int i * chans + int chan)))
                    (filter_scale ops filter' fp interp i))"] Let_def prod.case tap_sum_def tap_addrs_def)
qed

lemma Generic_fold:
  "fold (\<lambda>chan ks. \<lparr>dst_mem = (dst_mem ks)(dst + int chan := V (int chan)),
                      src_reads = src_reads ks @ R (int chan)\<rparr>) [0..<n] ks =
   \<lparr>dst_mem = (\<lambda>a. if dst \<le> a \<and> a < dst + int n then V (a - dst) else dst_mem ks a),
    src_reads = src_reads ks @ concat (map (\<lambda>c. R (int c)) [0..<n])\<rparr>"
proof (induction n)
  case 0
  show ?case by (cases ks) (auto simp add: fun_eq_iff)
next
  case (Suc n)
  have "fold (\<lambda>chan ks. \<lparr>dst_mem = (dst_mem ks)(dst + int chan := V (int chan)),
                      src_reads = src_reads ks @ R (int chan)\<rparr>) [0..<Suc n] ks =
        (\<lambda>ks. \<lparr>dst_mem = (dst_mem ks)(dst + int n := V (int n)),
                      src_reads = src_reads ks @ R (int n)\<rparr>)
          (fold (\<lambda>chan ks. \<lparr>dst_mem = (dst_mem ks)(dst + int chan := V (int chan)),
                      src_reads = src_reads ks @ R (int chan)\<rparr>) [0..<n] ks)"
    by simp
  also have "\<dots> = \<lparr>dst_mem = (\<lambda>a. if dst \<le> a \<and> a < dst + int (Suc n) then V (a - dst)
                                    else dst_mem ks a),
      src_reads = src_reads ks @ concat (map (\<lambda>c. R (int c)) [0..<Suc n])\<rparr>"
    unfolding Suc by (auto simp add: fun_eq_iff)
  finally show ?case .
qed

lemma Generic_result:
  "ResampleFrame_Generic ops mem src dst filter' fp interp chans ks =
   \<lparr>dst_mem = (\<lambda>a. if dst \<le> a \<and> a < dst + int (nat chans)
                     then tap_sum ops mem src filter' fp interp chans (a - dst)
                     else dst_mem ks a),
    src_reads = src_reads ks @ concat (map (\<lambda>c. tap_addrs src chans (int c)) [0..<nat chans])\<rparr>"
  unfolding ResampleFrame_Generic_def taps10 Let_def [of "map _ _"] Generic_channel
  by (rule Generic_fold)

lemma Mono_result:
  "ResampleFrame_Mono ops mem src dst filter' fp interp chans ks =
   \<lparr>dst_mem = (dst_mem ks)(dst := tap_sum ops mem src filter' fp interp 1 0),
    src_reads = src_reads ks @ tap_addrs src 1 0\<rparr>"
  unfolding ResampleFrame_Mono_def taps10 Let_def
  by (simp only: fold_acc_log [where f = "\<lambda>out i. fadd ops out
        (fmul ops (mem (src + int i)) (filter_scale ops filter' fp interp i))"]
      prod.case tap_sum_def tap_addrs_def) simp

lemma Stereo_result:
  "ResampleFrame_Stereo ops mem src dst filter' fp interp chans ks =
   \<lparr>dst_mem = (dst_mem ks)(dst := tap_sum ops mem src filter' fp interp 2 0,
                            dst + 1 := tap_sum ops mem src filter' fp interp 2 1),
    src_reads = src_reads ks @
      concat (map (\<lambda>i. [src + (int i * 2 + 0), src + (int i * 2 + 1)]) [0..<10])\<rparr>"
  unfolding ResampleFrame_Stereo_def taps10 Let_def
  by (simp only: fold_acc2_log [where f = "\<lambda>out i. fadd ops out
        (fmul ops (mem (src + (int i * 2 + 0))) (filter_scale ops filter' fp interp i))"
        and g = "\<lambda>out i. fadd ops out
        (fmul ops (mem (src + (int i * 2 + 1))) (filter_scale ops filter' fp interp i))"]
      prod.case tap_sum_def tap_addrs_def) simp

lemma tap_sum_spec:
  assumes "\<And>x y. fmul ops x y = fmul ops y x"
  shows "tap_sum ops mem src filter' fp alpha C c = spec_sample ops mem src filter' fp alpha C c"
proof -
  have "filter_scale ops filter' fp alpha i =
        fadd ops (fmul ops (fsub ops (fconst ops 1) alpha) (filter' (fp + int i)))
                 (fmul ops alpha (filter' (fp + 10 + int i)))" for i
    unfolding filter_scale_def
    using assms [of "filter' (fp + int i)"] assms [of "filter' (fp + 10 + int i)"]
    by (simp add: resampler_macros add.commute add.left_commute)
  then show ?thesis
    unfolding tap_sum_def spec_sample_def by simp
qed


text \<open>
  Claim C1. For every channel count \<open>C\<close> with \<open>1 \<le> C \<le> 8\<close>, every window \<^verbatim>\<open>src\<close> of 10
  frames of \<open>C\<close> interleaved channels, every pair of adjacent filter rows
  \<^verbatim>\<open>filter[0..9]\<close> and \<^verbatim>\<open>filter[10..19]\<close> and every weight \<open>\<alpha>\<close>, each scalar kernel
  (\<^verbatim>\<open>ResampleFrame_Generic\<close> for any \<open>C\<close>, \<^verbatim>\<open>ResampleFrame_Mono\<close> for \<open>C = 1\<close>,
  \<^verbatim>\<open>ResampleFrame_Stereo\<close> for \<open>C = 2\<close>) writes exactly the \<open>C\<close> samples
  \<^verbatim>\<open>dst[0..C-1]\<close>, with \<^verbatim>\<open>dst[c]\<close> the sum of the specification: the blend of each
  tap computed first, the taps accumulated in increasing order. The source writes the
  products of the blend as \<^verbatim>\<open>filter[i] * (1.0f - interp)\<close> and
  \<^verbatim>\<open>filter[i + 10] * interp\<close>, the specification with the factors exchanged:
  the two agree because the multiplication is commutative, which is the one property
  of the arithmetic the theorem assumes. The range \<open>[0, 1)\<close> of the weight plays no
  part.
\<close>

theorem scalar_kernels_contract:
  assumes comm: "\<And>x y. fmul ops x y = fmul ops y x"
    and C: "1 \<le> C" "C \<le> 8"
  shows
    "dst_mem (ResampleFrame_Generic ops mem src dst filter' fp alpha C ks) =
       (\<lambda>a. if dst \<le> a \<and> a < dst + C
             then spec_sample ops mem src filter' fp alpha C (a - dst) else dst_mem ks a) \<and>
     dst_mem (ResampleFrame_Mono ops mem src dst filter' fp alpha 1 ks) =
       (\<lambda>a. if dst \<le> a \<and> a < dst + 1
             then spec_sample ops mem src filter' fp alpha 1 (a - dst) else dst_mem ks a) \<and>
     dst_mem (ResampleFrame_Stereo ops mem src dst filter' fp alpha 2 ks) =
       (\<lambda>a. if dst \<le> a \<and> a < dst + 2
             then spec_sample ops mem src filter' fp alpha 2 (a - dst) else dst_mem ks a)"
proof (intro conjI)
  show "dst_mem (ResampleFrame_Generic ops mem src dst filter' fp alpha C ks) =
       (\<lambda>a. if dst \<le> a \<and> a < dst + C
             then spec_sample ops mem src filter' fp alpha C (a - dst) else dst_mem ks a)"
    using C by (simp add: Generic_result tap_sum_spec [OF comm] cong: if_cong)
next
  show "dst_mem (ResampleFrame_Mono ops mem src dst filter' fp alpha 1 ks) =
       (\<lambda>a. if dst \<le> a \<and> a < dst + 1
             then spec_sample ops mem src filter' fp alpha 1 (a - dst) else dst_mem ks a)"
    by (auto simp add: Mono_result tap_sum_spec [OF comm] fun_eq_iff)
next
  have "a = dst + 1" if "dst \<le> a" "a < dst + 2" "a \<noteq> dst" for a :: int
    using that by simp
  then show "dst_mem (ResampleFrame_Stereo ops mem src dst filter' fp alpha 2 ks) =
       (\<lambda>a. if dst \<le> a \<and> a < dst + 2
             then spec_sample ops mem src filter' fp alpha 2 (a - dst) else dst_mem ks a)"
    by (auto simp add: Stereo_result tap_sum_spec [OF comm] fun_eq_iff)
qed

theorem scalar_kernels_contract_witness:
  "dst_mem (ResampleFrame_Generic int_ops (\<lambda>a. a) 0 0 (\<lambda>a. a) 0 1 3
              \<lparr>dst_mem = (\<lambda>_. 0), src_reads = []\<rparr>) 2 = 2495 \<and>
   dst_mem (ResampleFrame_Generic int_ops (\<lambda>a. a) 0 0 (\<lambda>a. a) 0 1 3
              \<lparr>dst_mem = (\<lambda>_. 0), src_reads = []\<rparr>) 3 = 0 \<and>
   dst_mem (ResampleFrame_Mono int_ops (\<lambda>a. a) 0 0 (\<lambda>a. a) 0 1 1
              \<lparr>dst_mem = (\<lambda>_. 0), src_reads = []\<rparr>) 0 =
     spec_sample int_ops (\<lambda>a. a) 0 (\<lambda>a. a) 0 1 1 0 \<and>
   dst_mem (ResampleFrame_Stereo int_ops (\<lambda>a. a) 0 0 (\<lambda>a. a) 0 1 2
              \<lparr>dst_mem = (\<lambda>_. 0), src_reads = []\<rparr>) 1 =
     spec_sample int_ops (\<lambda>a. a) 0 (\<lambda>a. a) 0 1 2 1"
proof -
  have comm: "\<And>x y. fmul int_ops x y = fmul int_ops y x"
    by (simp add: int_ops_def)
  have s: "spec_sample int_ops (\<lambda>a. a) 0 (\<lambda>a. a) 0 1 3 2 = 2495"
    by (simp add: spec_sample_def int_ops_def upt_rec [of 0] upt_rec [of "Suc _"] numeral_eq_Suc)
  show ?thesis
    using scalar_kernels_contract [OF comm, of 3 "\<lambda>a. a" 0 0 "\<lambda>a. a" 0 1
        "\<lparr>dst_mem = (\<lambda>_. 0), src_reads = []\<rparr>"]
    by (simp add: s)
qed

section \<open>Symmetry of the filter bank\<close>

lemma mirror_at_pair:
  "a = l \<or> mirror_at t a \<Longrightarrow>
   mirror_at (t(l := v, (RESAMPLER_FILTER_SIZE - 1) - l := v)) a"
  by (auto simp add: mirror_at_def)

lemma mirror_at_pair':
  "a = r \<or> mirror_at t a \<Longrightarrow>
   mirror_at (t((RESAMPLER_FILTER_SIZE - 1) - r := v, r := v)) a"
  by (auto simp add: mirror_at_def)

lemma mirror_at_flip:
  "mirror_at t ((RESAMPLER_FILTER_SIZE - 1) - a) \<longleftrightarrow> mirror_at t a"
  by (auto simp add: mirror_at_def)

lemma tap_mirror:
  assumes "a = int i * 10 + 4 - int j \<or> mirror_at t a"
  shows "mirror_at (fst (GenerateResamplerFilter_tap ops kaiser interp winglen i j (t, s))) a"
proof -
  have l: "(int i * RESAMPLER_SAMPLES_PER_FRAME) + (RESAMPLER_ZERO_CROSSINGS - 1) - int j =
           int i * 10 + 4 - int j"
    by (simp add: RESAMPLER_SAMPLES_PER_FRAME_def RESAMPLER_ZERO_CROSSINGS_def)
  show ?thesis
    unfolding GenerateResamplerFilter_tap_def Let_def prod.case fst_conv l
    using assms by (rule mirror_at_pair)
qed

lemma taps_mirror:
  assumes "(\<exists>j<n. a = int i * 10 + 4 - int j) \<or> mirror_at t a"
  shows "mirror_at
           (fst (fold (GenerateResamplerFilter_tap ops kaiser interp winglen i) [0..<n] (t, s))) a"
  using assms
proof (induction n)
  case 0
  then show ?case by simp
next
  case (Suc n)
  obtain t' s' where f:
    "fold (GenerateResamplerFilter_tap ops kaiser interp winglen i) [0..<n] (t, s) = (t', s')"
    by (cases "fold (GenerateResamplerFilter_tap ops kaiser interp winglen i) [0..<n] (t, s)")
  have "a = int i * 10 + 4 - int n \<or> mirror_at t' a"
  proof (cases "a = int i * 10 + 4 - int n")
    case True
    then show ?thesis by simp
  next
    case False
    then have "(\<exists>j<n. a = int i * 10 + 4 - int j) \<or> mirror_at t a"
      using Suc.prems less_Suc_eq by auto
    then have "mirror_at t' a" using Suc.IH f by simp
    then show ?thesis by simp
  qed
  then have "mirror_at (fst (GenerateResamplerFilter_tap ops kaiser interp winglen i n (t', s'))) a"
    by (rule tap_mirror)
  then show ?case by (simp add: f)
qed

lemma row_mirror:
  assumes "(\<exists>j<5. a = int i * 10 + 4 - int j) \<or> mirror_at t a"
  shows "mirror_at (GenerateResamplerFilter_row ops kaiser sinc_scale winglen i t) a"
proof -
  have n: "nat RESAMPLER_ZERO_CROSSINGS = 5" by (simp add: RESAMPLER_ZERO_CROSSINGS_def)
  show ?thesis
    unfolding GenerateResamplerFilter_row_def Let_def n
    using assms by (rule taps_mirror)
qed

lemma rows_mirror:
  assumes "(\<exists>i<m. \<exists>j<5. a = int i * 10 + 4 - int j) \<or> mirror_at t a"
  shows "mirror_at (fold (GenerateResamplerFilter_row ops kaiser sinc_scale winglen) [0..<m] t) a"
  using assms
proof (induction m)
  case 0
  then show ?case by simp
next
  case (Suc m)
  let ?t = "fold (GenerateResamplerFilter_row ops kaiser sinc_scale winglen) [0..<m] t"
  have "(\<exists>j<5. a = int m * 10 + 4 - int j) \<or> mirror_at ?t a"
  proof (cases "\<exists>j<5. a = int m * 10 + 4 - int j")
    case True
    then show ?thesis by simp
  next
    case False
    then have "(\<exists>i<m. \<exists>j<5. a = int i * 10 + 4 - int j) \<or> mirror_at t a"
      using Suc.prems less_Suc_eq by auto
    then show ?thesis using Suc.IH by simp
  qed
  then have "mirror_at (GenerateResamplerFilter_row ops kaiser sinc_scale winglen m ?t) a"
    by (rule row_mirror)
  then show ?case by simp
qed

lemma pad_mirror:
  assumes "mirror_at t a"
  shows "mirror_at (GenerateResamplerFilter_pad ops i t) a"
  unfolding GenerateResamplerFilter_pad_def Let_def
  using assms by (intro mirror_at_pair') simp

lemma pads_mirror:
  assumes "mirror_at t a"
  shows "mirror_at (fold (GenerateResamplerFilter_pad ops) [0..<n] t) a"
  by (induction n) (simp_all add: assms pad_mirror)

lemma inner_rows_covered:
  assumes "1 \<le> p" "p \<le> 511" "0 \<le> k" "k < 10"
  shows "(\<exists>i<512. \<exists>j<5. p * 10 + k = int i * 10 + 4 - int j) \<or>
         (\<exists>i<512. \<exists>j<5. (RESAMPLER_FILTER_SIZE - 1) - (p * 10 + k) = int i * 10 + 4 - int j)"
proof (cases "k < 5")
  case True
  have "nat p < 512" "nat (4 - k) < 5" "p * 10 + k = int (nat p) * 10 + 4 - int (nat (4 - k))"
    using assms True by simp_all
  then show ?thesis by blast
next
  case False
  have "nat (512 - p) < 512" "nat (k - 5) < 5"
    "(RESAMPLER_FILTER_SIZE - 1) - (p * 10 + k) = int (nat (512 - p)) * 10 + 4 - int (nat (k - 5))"
    using assms False by (simp_all add: resampler_macros)
  then show ?thesis by blast
qed

lemma GenerateResamplerFilter_mirror:
  assumes "1 \<le> p" "p \<le> 511" "0 \<le> k" "k < 10"
  shows "mirror_at (GenerateResamplerFilter ops kaiser0 t0) (p * 10 + k)"
proof -
  have n: "nat RESAMPLER_SAMPLES_PER_ZERO_CROSSING = 512" by (simp add: resampler_macros)
  have rows: "mirror_at (fold (GenerateResamplerFilter_row ops kaiser sinc_scale winglen)
                 [0..<512] t0) (p * 10 + k)" for kaiser sinc_scale winglen
    using inner_rows_covered [OF assms]
  proof
    assume "\<exists>i<512. \<exists>j<5. p * 10 + k = int i * 10 + 4 - int j"
    then show ?thesis by (intro rows_mirror) simp
  next
    assume "\<exists>i<512. \<exists>j<5.
      (RESAMPLER_FILTER_SIZE - 1) - (p * 10 + k) = int i * 10 + 4 - int j"
    then have "mirror_at (fold (GenerateResamplerFilter_row ops kaiser sinc_scale winglen)
                 [0..<512] t0) ((RESAMPLER_FILTER_SIZE - 1) - (p * 10 + k))"
      by (intro rows_mirror) simp
    then show ?thesis by (simp only: mirror_at_flip)
  qed
  show ?thesis
    unfolding GenerateResamplerFilter_def Let_def n
    by (rule pads_mirror) (rule rows)
qed


text \<open>
  Claim C8. After \<^verbatim>\<open>SDL_SetupAudioResampler\<close> has run (from a state whose one-shot flag
  is not yet set, as at process start), the filter bank is mirror-symmetric:
  \<^verbatim>\<open>ResamplerFilter[p*10 + i]\<close> equals \<^verbatim>\<open>ResamplerFilter[(512 - p)*10 + (9 - i)]\<close> for
  every phase \<open>p\<close> in \<open>[1, 511]\<close> and every tap \<open>i\<close> in \<open>[0, 10)\<close>. The two entries
  hold the same stored value whatever the arithmetic computes, since every write of
  the generator is a pair of writes of one value to an index and to its mirror image.
\<close>

theorem filter_bank_mirror_symmetric:
  assumes "\<not> setup_done g" and "1 \<le> p" "p \<le> 511" and "0 \<le> i" "i < 10"
  shows "ResamplerFilter (SDL_SetupAudioResampler ops sse kaiser0 g) (p * 10 + i) =
         ResamplerFilter (SDL_SetupAudioResampler ops sse kaiser0 g) ((512 - p) * 10 + (9 - i))"
proof -
  have "mirror_at (GenerateResamplerFilter ops kaiser0 (ResamplerFilter g)) (p * 10 + i)"
    using assms(2-5) by (rule GenerateResamplerFilter_mirror)
  moreover have "(RESAMPLER_FILTER_SIZE - 1) - (p * 10 + i) = (512 - p) * 10 + (9 - i)"
    by (simp add: resampler_macros)
  ultimately show ?thesis
    using assms(1) by (simp add: SDL_SetupAudioResampler_def Let_def mirror_at_def)
qed

theorem filter_bank_mirror_symmetric_witness:
  "ResamplerFilter (SDL_SetupAudioResampler int_ops None (\<lambda>_. 0) fresh_globals) (3 * 10 + 7) =
   ResamplerFilter (SDL_SetupAudioResampler int_ops None (\<lambda>_. 0) fresh_globals)
     ((512 - 3) * 10 + (9 - 7))"
  using filter_bank_mirror_symmetric [of fresh_globals 3 7 int_ops None "\<lambda>_. 0"]
  by (simp add: fresh_globals_def)

section \<open>The resample driver: phase and source reads\<close>

lemma body_srcpos:
  "srcpos (ResampleAudio_body ops F k chans mem src inframes rate ls) = srcpos ls + rate"
  by (simp add: ResampleAudio_body_def Let_def)

lemma loop_srcpos:
  "srcpos (fold (\<lambda>i. ResampleAudio_body ops F k chans mem src inframes rate) [0..<n] ls) =
     srcpos ls + of_nat n * rate"
  by (induction n) (simp_all add: body_srcpos distrib_right)

lemma of_nat_nat_sint:
  "0 \<le> sint (n::Sint32) \<Longrightarrow> (of_nat (nat (sint n)) :: Sint64) = scast n"
  by simp

lemma sint_chans_pred:
  assumes "1 \<le> sint (chans::Sint32)" "sint chans \<le> 8"
  shows "sint (chans - 1) = sint chans - 1"
proof -
  have "- (2^31) \<le> sint chans - 1" "sint chans - 1 < 2^31" using assms by simp_all
  then have "signed_take_bit 31 (sint chans - 1) = sint chans - 1"
    by (rule signed_take_bit_int_eq_self)
  then show ?thesis by (simp add: sint_word_diff)
qed

lemma ResampleAudio_Some:
  assumes "1 \<le> sint chans" "sint chans \<le> 8"
    and "ResampleFrame g (sint (chans - 1)) = Some k"
  shows "SDL_ResampleAudio ops g chans mem src inframes dmem dst outframes rate off =
    Some (let ls = fold (\<lambda>i. ResampleAudio_body ops (ResamplerFilter g) k chans mem
                           (src - sint (word_of_int (RESAMPLER_ZERO_CROSSINGS - 1) * chans))
                           inframes rate)
                     [0..<nat (sint outframes)]
                     \<lparr>srcpos = off, dstp = dst,
                      kst = \<lparr>dst_mem = dmem, src_reads = []\<rparr>,
                      asserts = (0 <s rate)\<rparr>
          in \<lparr>res_dst = dst_mem (kst ls),
              res_offset = srcpos ls - push_bit 32 (scast inframes),
              res_reads = src_reads (kst ls),
              res_asserts = asserts ls\<rparr>)"
proof -
  have "sint (chans - 1) = sint chans - 1"
    using assms(1,2) by (rule sint_chans_pred)
  then have "0 \<le> sint (chans - 1) \<and> sint (chans - 1) < 8" using assms(1,2) by simp
  then show ?thesis
    using assms(3) by (simp add: SDL_ResampleAudio_def Let_def)
qed

lemma word64_eq_int:
  assumes "(word_of_int L :: Sint64) = word_of_int R"
    and "- (2^63) \<le> L" "L < 2^63" "- (2^63) \<le> R" "R < 2^63"
  shows "L = R"
proof -
  have "L = sint (word_of_int L :: Sint64)"
    using assms(2,3) by (rule sint_word_of_int_range [symmetric])
  also have "\<dots> = sint (word_of_int R :: Sint64)"
    by (simp only: assms(1))
  also have "\<dots> = R"
    using assms(4,5) by (rule sint_word_of_int_range)
  finally show ?thesis .
qed

lemma tap_addrs_bounds:
  assumes "0 \<le> c" "c < C"
  shows "set (tap_addrs f C c) \<subseteq> {f ..< f + 10 * C}"
proof
  fix a assume "a \<in> set (tap_addrs f C c)"
  then obtain i where i: "i < 10" and a: "a = f + (int i * C + c)"
    by (auto simp add: tap_addrs_def)
  have C: "0 \<le> C" using assms by simp
  define t where "t = int i * C"
  have "t \<le> 9 * C" unfolding t_def using i C by (intro mult_right_mono) simp_all
  moreover have "0 \<le> t" unfolding t_def using C by simp
  moreover have "a = f + (t + c)" using a by (simp add: t_def)
  ultimately show "a \<in> {f ..< f + 10 * C}" using assms by simp
qed

lemma Generic_reads:
  "set (src_reads (ResampleFrame_Generic ops mem f d F fp alpha C ks)) \<subseteq>
     set (src_reads ks) \<union> {f ..< f + 10 * C}"
proof
  fix x assume "x \<in> set (src_reads (ResampleFrame_Generic ops mem f d F fp alpha C ks))"
  then consider "x \<in> set (src_reads ks)"
    | c where "c < nat C" "x \<in> set (tap_addrs f C (int c))"
    by (auto simp add: Generic_result)
  then show "x \<in> set (src_reads ks) \<union> {f ..< f + 10 * C}"
  proof cases
    case 1
    then show ?thesis by simp
  next
    case (2 c)
    have "set (tap_addrs f C (int c)) \<subseteq> {f ..< f + 10 * C}"
      using 2(1) by (intro tap_addrs_bounds) simp_all
    then show ?thesis using 2(2) by blast
  qed
qed

lemma Mono_reads:
  "set (src_reads (ResampleFrame_Mono ops mem f d F fp alpha C ks)) \<subseteq>
     set (src_reads ks) \<union> {f ..< f + 10 * 1}"
  using tap_addrs_bounds [of 0 1 f] by (auto simp add: Mono_result)

lemma Stereo_reads:
  "set (src_reads (ResampleFrame_Stereo ops mem f d F fp alpha C ks)) \<subseteq>
     set (src_reads ks) \<union> {f ..< f + 10 * 2}"
  by (auto simp add: Stereo_result)

lemma fold_table8:
  "fold (\<lambda>i t. t(int i := v)) [0..<8] t = (\<lambda>a. if 0 \<le> a \<and> a < 8 then v else t a)"
  by (auto simp add: fun_eq_iff upt_rec [of 0] upt_rec [of "Suc _"] numeral_eq_Suc)

lemma Setup_table:
  assumes "\<not> setup_done g"
  shows "ResampleFrame (SDL_SetupAudioResampler ops None kaiser0 g) =
    (\<lambda>a. if a = 0 then Some (ResampleFrame_Mono ops)
          else if a = 1 then Some (ResampleFrame_Stereo ops)
          else if 0 \<le> a \<and> a < 8 then Some (ResampleFrame_Generic ops)
          else ResampleFrame g a)"
  using assms by (auto simp add: SDL_SetupAudioResampler_def Let_def fold_table8 fun_eq_iff)

lemma Setup_filter:
  "ResamplerFilter (SDL_SetupAudioResampler ops sse kaiser0 g) =
     (if setup_done g then ResamplerFilter g
      else GenerateResamplerFilter ops kaiser0 (ResamplerFilter g))"
  by (simp add: SDL_SetupAudioResampler_def Let_def)

text \<open>The kernel the scalar table holds for a channel count, and what it reads.\<close>

lemma scalar_dispatch:
  assumes "\<not> setup_done g" "1 \<le> sint (chans::Sint32)" "sint chans \<le> 8"
  shows "\<exists>k. ResampleFrame (SDL_SetupAudioResampler ops None kaiser0 g) (sint (chans - 1)) = Some k \<and>
           reads_within_window k (sint chans)"
proof -
  have p: "sint (chans - 1) = sint chans - 1"
    using assms(2,3) by (rule sint_chans_pred)
  let ?g = "SDL_SetupAudioResampler ops None kaiser0 g"
  consider "sint chans = 1" | "sint chans = 2" | "3 \<le> sint chans"
    using assms(2) by linarith
  then show ?thesis
  proof cases
    case 1
    have "ResampleFrame ?g (sint (chans - 1)) = Some (ResampleFrame_Mono ops)"
      by (simp add: Setup_table [OF assms(1)] p 1)
    moreover have "set (src_reads (ResampleFrame_Mono ops mem f d F fp alpha (sint chans) ks)) \<subseteq>
        set (src_reads ks) \<union> {f ..< f + 10 * sint chans}" for mem f d F fp alpha ks
      unfolding 1 by (rule Mono_reads)
    ultimately show ?thesis unfolding reads_within_window_def by blast
  next
    case 2
    have "ResampleFrame ?g (sint (chans - 1)) = Some (ResampleFrame_Stereo ops)"
      by (simp add: Setup_table [OF assms(1)] p 2)
    moreover have "set (src_reads (ResampleFrame_Stereo ops mem f d F fp alpha (sint chans) ks)) \<subseteq>
        set (src_reads ks) \<union> {f ..< f + 10 * sint chans}" for mem f d F fp alpha ks
      unfolding 2 by (rule Stereo_reads)
    ultimately show ?thesis unfolding reads_within_window_def by blast
  next
    case 3
    have "ResampleFrame ?g (sint (chans - 1)) = Some (ResampleFrame_Generic ops)"
      using 3 assms(3) by (simp add: Setup_table [OF assms(1)] p)
    moreover have "set (src_reads (ResampleFrame_Generic ops mem f d F fp alpha (sint chans) ks)) \<subseteq>
        set (src_reads ks) \<union> {f ..< f + 10 * sint chans}" for mem f d F fp alpha ks
      by (rule Generic_reads)
    ultimately show ?thesis unfolding reads_within_window_def by blast
  qed
qed

lemma sint_srcindex:
  "sint (scast (signed_drop_bit 32 (x::Sint64)) :: Sint32) = sint x div 2^32"
proof -
  have "- (2^31) \<le> sint x div 2^32 \<and> sint x div 2^32 < 2^31"
    using sint_range64 [of x] shift32_range by blast
  then show ?thesis
    by (simp add: sint_scast_down sint_signed_drop_bit_eq drop_bit_eq_div
        signed_take_bit_int_eq_self)
qed

lemma sint_mult32:
  assumes "- (2^31) \<le> sint a * sint b" "sint a * sint b < 2^31"
  shows "sint ((a::Sint32) * b) = sint a * sint b"
  using assms by (simp add: sint_word_mult signed_take_bit_int_eq_self)

lemma mult_bounds:
  "lo \<le> (x::int) \<Longrightarrow> x \<le> hi \<Longrightarrow> 0 \<le> c \<Longrightarrow> lo * c \<le> x * c \<and> x * c \<le> hi * c"
  by (simp add: mult_right_mono)

lemma frame_window:
  assumes C: "1 \<le> (C::int)" and lo: "- 1 \<le> idx" and hi: "idx < M"
  shows "{src + idx * C ..< src + idx * C + 10 * C} \<subseteq> {src - C ..< src + (M + 9) * C}"
proof -
  define q where "q = idx * C"
  have "(- 1) * C \<le> q \<and> q \<le> (M - 1) * C"
    unfolding q_def by (rule mult_bounds) (use lo hi C in simp_all)
  moreover have "(M - 1) * C + 10 * C = (M + 9) * C" by (simp add: algebra_simps)
  ultimately have "{src + q ..< src + q + 10 * C} \<subseteq> {src - C ..< src + (M + 9) * C}"
    by auto
  then show ?thesis by (simp only: q_def)
qed

lemma body_step:
  assumes kb: "\<And>mem f d F fp alpha ks.
                 set (src_reads (k mem f d F fp alpha (sint chans) ks)) \<subseteq>
                   set (src_reads ks) \<union> {f ..< f + 10 * sint chans}"
    and C: "1 \<le> sint chans" "sint chans \<le> 8"
    and lo: "- (2^32) \<le> sint (srcpos ls)"
    and hi: "sint (srcpos ls) div 2^32 < sint inframes"
    and ov: "sint inframes * sint chans < 2^31"
  shows "asserts (ResampleAudio_body ops F k chans mem src inframes rate ls) = asserts ls \<and>
         set (src_reads (kst (ResampleAudio_body ops F k chans mem src inframes rate ls))) \<subseteq>
           set (src_reads (kst ls)) \<union>
             {src - sint chans ..< src + (sint inframes + 9) * sint chans}"
proof -
  let ?idx = "scast (signed_drop_bit 32 (srcpos ls)) :: Sint32"
  have idx: "sint ?idx = sint (srcpos ls) div 2^32" by (rule sint_srcindex)
  have "(- (2^32)) div 2^32 \<le> sint (srcpos ls) div (2^32 :: int)"
    using lo by (intro zdiv_mono1) simp_all
  then have i0: "- 1 \<le> sint ?idx" unfolding idx by simp
  have i1: "sint ?idx < sint inframes" unfolding idx by (rule hi)
  define q where "q = sint ?idx * sint chans"
  have "(- 1) * sint chans \<le> q \<and> q \<le> sint inframes * sint chans"
    unfolding q_def by (rule mult_bounds) (use i0 i1 C in simp_all)
  then have "- (2^31) \<le> q \<and> q < 2^31" using C ov by simp
  then have "sint (?idx * chans) = sint ?idx * sint chans"
    unfolding q_def by (intro sint_mult32) simp_all
  then have fr: "src + sint (?idx * chans) = src + sint ?idx * sint chans" by simp
  have w: "{src + sint ?idx * sint chans ..< src + sint ?idx * sint chans + 10 * sint chans} \<subseteq>
             {src - sint chans ..< src + (sint inframes + 9) * sint chans}"
    using C(1) i0 i1 by (rule frame_window)
  have a: "asserts (ResampleAudio_body ops F k chans mem src inframes rate ls) = asserts ls"
    using i0 i1 by (simp add: ResampleAudio_body_def Let_def word_sle_eq word_sless_alt)
  have "set (src_reads (kst (ResampleAudio_body ops F k chans mem src inframes rate ls))) \<subseteq>
          set (src_reads (kst ls)) \<union>
            {src + sint ?idx * sint chans ..< src + sint ?idx * sint chans + 10 * sint chans}"
    unfolding ResampleAudio_body_def Let_def fr
    by (simp only: loop_state.simps) (rule kb)
  then show ?thesis using a w by blast
qed

lemma loop_inv:
  assumes kb: "\<And>mem f d F fp alpha ks.
                 set (src_reads (k mem f d F fp alpha (sint chans) ks)) \<subseteq>
                   set (src_reads ks) \<union> {f ..< f + 10 * sint chans}"
    and C: "1 \<le> sint chans" "sint chans \<le> 8"
    and ov: "sint inframes * sint chans < 2^31"
    and pos: "\<And>j. j < n \<Longrightarrow>
                - (2^32) \<le> sint (srcpos ls0 + of_nat j * rate) \<and>
                sint (srcpos ls0 + of_nat j * rate) div 2^32 < sint inframes"
  shows "asserts (fold (\<lambda>i. ResampleAudio_body ops F k chans mem src inframes rate) [0..<n] ls0)
           = asserts ls0 \<and>
         set (src_reads (kst
           (fold (\<lambda>i. ResampleAudio_body ops F k chans mem src inframes rate) [0..<n] ls0))) \<subseteq>
           set (src_reads (kst ls0)) \<union>
             {src - sint chans ..< src + (sint inframes + 9) * sint chans}"
  using pos
proof (induction n)
  case 0
  show ?case by simp
next
  case (Suc n)
  let ?ls = "fold (\<lambda>i. ResampleAudio_body ops F k chans mem src inframes rate) [0..<n] ls0"
  have ih: "asserts ?ls = asserts ls0 \<and>
            set (src_reads (kst ?ls)) \<subseteq>
              set (src_reads (kst ls0)) \<union>
                {src - sint chans ..< src + (sint inframes + 9) * sint chans}"
    using Suc.prems by (intro Suc.IH) simp
  have sp: "srcpos ?ls = srcpos ls0 + of_nat n * rate" by (rule loop_srcpos)
  have "- (2^32) \<le> sint (srcpos ?ls) \<and> sint (srcpos ?ls) div 2^32 < sint inframes"
    unfolding sp using Suc.prems [of n] by simp
  then have st: "asserts (ResampleAudio_body ops F k chans mem src inframes rate ?ls) = asserts ?ls \<and>
         set (src_reads (kst (ResampleAudio_body ops F k chans mem src inframes rate ?ls))) \<subseteq>
           set (src_reads (kst ?ls)) \<union>
             {src - sint chans ..< src + (sint inframes + 9) * sint chans}"
    using kb C ov by (intro body_step) simp_all
  have f: "fold (\<lambda>i. ResampleAudio_body ops F k chans mem src inframes rate) [0..<Suc n] ls0 =
           ResampleAudio_body ops F k chans mem src inframes rate ?ls"
    by simp
  show ?case unfolding f using st ih by blast
qed

lemma srcpos_no_wrap:
  assumes r: "0 < sint (rate::Sint64)" and o: "- (2^32) \<le> sint (off::Sint64)"
    and j: "int j \<le> N - 1"
    and v: "(N - 1) * sint rate + sint off \<le> 2^63 - 1"
  shows "sint (off + of_nat j * rate) = sint off + int j * sint rate \<and>
         - (2^32) \<le> sint off + int j * sint rate \<and>
         sint off + int j * sint rate \<le> (N - 1) * sint rate + sint off"
proof -
  define q where "q = int j * sint rate"
  have "0 * sint rate \<le> q \<and> q \<le> (N - 1) * sint rate"
    unfolding q_def by (rule mult_bounds) (use j r in simp_all)
  then have q: "0 \<le> q" "q \<le> (N - 1) * sint rate" by simp_all
  have w: "off + of_nat j * rate = word_of_int (sint off + q)"
    by (simp add: q_def)
  have "- (2^63) \<le> sint off + q" using q(1) o by simp
  moreover have "sint off + q < 2^63" using q(2) v by simp
  ultimately have "sint (word_of_int (sint off + q) :: Sint64) = sint off + q"
    by (rule sint_word_of_int_range)
  then show ?thesis using q o unfolding w q_def by simp
qed

lemma div_shift_less:
  assumes "(p::int) \<le> v - 2^32"
  shows "p div 2^32 < max 0 (v div 2^32)"
proof -
  have "p div 2^32 \<le> (v - 2^32) div 2^32" using assms by (intro zdiv_mono1) simp_all
  also have "\<dots> = v div 2^32 - 1" by simp
  finally show ?thesis by simp
qed

lemma sint_inframes:
  "sint (scast (SDL_GetResamplerInputFrames n r off) :: Sint32) =
   sint (SDL_GetResamplerInputFrames n r off)"
proof -
  have "- (2^31) \<le> sint (SDL_GetResamplerInputFrames n r off)"
       "sint (SDL_GetResamplerInputFrames n r off) < 2^31"
    using InputFrames_bounds [of n r off] by simp_all
  then have "signed_take_bit 31 (sint (SDL_GetResamplerInputFrames n r off)) =
             sint (SDL_GetResamplerInputFrames n r off)"
    by (rule signed_take_bit_int_eq_self)
  then show ?thesis by (simp add: sint_scast_down)
qed

lemma sint_four_chans:
  assumes "1 \<le> sint (chans::Sint32)" "sint chans \<le> 8"
  shows "sint (word_of_int (RESAMPLER_ZERO_CROSSINGS - 1) * chans) = 4 * sint chans"
proof -
  have "sint ((4::Sint32) * chans) = sint (4::Sint32) * sint chans"
    using assms by (intro sint_mult32) simp_all
  then show ?thesis by (simp add: RESAMPLER_ZERO_CROSSINGS_def)
qed

text \<open>The planned input count covers every position the loop visits.\<close>

lemma planned_positions:
  assumes rate: "0 < sint rate"
    and N: "0 \<le> sint (outframes::Sint32)"
    and off: "- (2^32) \<le> sint off" "sint off + 2^32 - sint rate < 2^63"
    and hm: "ResamplerMul (scast outframes) rate = Some m"
    and hs: "ResamplerAdd m (- rate + off + 0x100000000) = Some s"
    and j: "j < nat (sint outframes)"
  shows "- (2^32) \<le> sint (off + of_nat j * rate) \<and>
         sint (off + of_nat j * rate) div 2^32 <
           sint (SDL_GetResamplerInputFrames (scast outframes) rate off)"
proof -
  let ?N = "sint outframes"
  let ?b = "- rate + off + 0x100000000 :: Sint64"
  have N64: "sint (scast outframes :: Sint64) = ?N" by (rule sint_scast_up)
  have n0: "0 \<le> sint (scast outframes :: Sint64)" using N by (simp add: N64)
  have m: "sint m = ?N * sint rate"
    using ResamplerMul_Some [OF hm rate n0] by (simp add: N64)
  have b: "sint ?b = sint off + 2^32 - sint rate"
    using off sint_range64 [of rate] by (intro sint_offset_term) simp_all
  have "0 \<le> ?N * sint rate" using N rate by simp
  then have "- (2^63) \<le> sint m + sint ?b"
    using m b off sint_range64 [of rate] by simp
  from ResamplerAdd_Some [OF hs this]
  have s: "sint s = sint m + sint ?b" and s1: "sint m + sint ?b \<le> 2^63 - 1" by blast+
  have v: "sint s = (?N - 1) * sint rate + sint off + 2^32"
    using s m b by (simp add: algebra_simps)
  have v1: "(?N - 1) * sint rate + sint off \<le> 2^63 - 1"
    using s s1 v by simp
  have jn: "int j \<le> ?N - 1" using j by simp
  from srcpos_no_wrap [OF rate off(1) jn v1]
  have p: "sint (off + of_nat j * rate) = sint off + int j * sint rate"
    and p0: "- (2^32) \<le> sint off + int j * sint rate"
    and p1: "sint off + int j * sint rate \<le> (?N - 1) * sint rate + sint off"
    by blast+
  have "sint off + int j * sint rate \<le> sint s - 2^32" using p1 v by simp
  then have "(sint off + int j * sint rate) div 2^32 < max 0 (sint s div 2^32)"
    by (rule div_shift_less)
  moreover have "InputFrames_output_offset (scast outframes) rate off = s"
    using hm hs by (simp add: InputFrames_output_offset_def)
  ultimately have "(sint off + int j * sint rate) div 2^32 <
      sint (SDL_GetResamplerInputFrames (scast outframes) rate off)"
    by (simp add: InputFrames_sint)
  then show ?thesis using p p0 by simp
qed


lemma Stereo_window: "reads_within_window (ResampleFrame_Stereo ops) 2"
  unfolding reads_within_window_def using Stereo_reads [where ops = ops] by simp

lemma Setup_table_sse:
  assumes "\<not> setup_done g"
  shows "ResampleFrame (SDL_SetupAudioResampler ops (Some k) kaiser0 g) =
    (\<lambda>a. if 0 \<le> a \<and> a < 8 then Some k else ResampleFrame g a)"
  using assms by (auto simp add: SDL_SetupAudioResampler_def Let_def fold_table8 fun_eq_iff)

text \<open>
  After the setup, the entry for a channel count holds a kernel that keeps to its
  window: in the scalar table always, in the SSE table when the SSE kernel does.
\<close>

lemma Setup_dispatch:
  assumes g: "\<not> setup_done g" and chans: "1 \<le> sint (chans::Sint32)" "sint chans \<le> 8"
    and sse: "\<And>k. sse = Some k \<Longrightarrow> reads_within_window k (sint chans)"
  shows "\<exists>k. ResampleFrame (SDL_SetupAudioResampler ops sse kaiser0 g) (sint (chans - 1)) = Some k \<and>
           reads_within_window k (sint chans)"
proof (cases sse)
  case None
  then show ?thesis using scalar_dispatch [OF g chans] by simp
next
  case (Some k)
  have p: "sint (chans - 1) = sint chans - 1"
    using chans by (rule sint_chans_pred)
  have "ResampleFrame (SDL_SetupAudioResampler ops (Some k) kaiser0 g) (sint (chans - 1)) = Some k"
    using chans by (simp add: Setup_table_sse [OF g] p)
  then show ?thesis using Some sse by blast
qed

lemma fresh_setup_mono:
  "ResampleFrame (SDL_SetupAudioResampler int_ops None (\<lambda>_. 0) fresh_globals)
     (sint (1 - 1 :: Sint32)) = Some (ResampleFrame_Mono int_ops)"
  by (simp add: Setup_table fresh_globals_def)

lemma fresh_setup_stereo:
  "ResampleFrame (SDL_SetupAudioResampler int_ops None (\<lambda>_. 0) fresh_globals)
     (sint (2 - 1 :: Sint32)) = Some (ResampleFrame_Stereo int_ops)"
  by (simp add: Setup_table fresh_globals_def)


text \<open>
  Claim C2. For every call of \<^verbatim>\<open>SDL_ResampleAudio\<close> with \<open>resample_rate > 0\<close>,
  input frame count \<open>M\<close> and output frame count \<open>N \<ge> 0\<close>, the value stored into
  \<^verbatim>\<open>*inout_resample_offset\<close>, plus \<open>M << 32\<close>, equals the initial offset plus
  \<open>N \<cdot> resample_rate\<close>. The call is one through an entry of the kernel table
  (\<open>1 \<le> chans \<le> 8\<close>, the entry not null), whatever kernel the entry holds. The
  identity is one of 64-bit two's-complement values, and one of integers whenever its
  two sides fit in 64 bits.
\<close>

theorem ResampleAudio_offset_identity:
  assumes "0 < sint rate" and "0 \<le> sint outframes"
    and "1 \<le> sint chans" "sint chans \<le> 8"
    and "ResampleFrame g (sint (chans - 1)) = Some k"
  shows "\<exists>res. SDL_ResampleAudio ops g chans mem src inframes dmem dst outframes rate off = Some res \<and>
           res_offset res + push_bit 32 (scast inframes) = off + scast outframes * rate \<and>
           (- (2^63) \<le> sint (res_offset res) + sint inframes * 2^32 \<and>
            sint (res_offset res) + sint inframes * 2^32 < 2^63 \<and>
            sint off + sint outframes * sint rate < 2^63 \<longrightarrow>
            sint (res_offset res) + sint inframes * 2^32 = sint off + sint outframes * sint rate)"
proof -
  let ?ls = "fold (\<lambda>i. ResampleAudio_body ops (ResamplerFilter g) k chans mem
                           (src - sint (word_of_int (RESAMPLER_ZERO_CROSSINGS - 1) * chans))
                           inframes rate)
                     [0..<nat (sint outframes)]
                     \<lparr>srcpos = off, dstp = dst,
                      kst = \<lparr>dst_mem = dmem, src_reads = []\<rparr>,
                      asserts = (0 <s rate)\<rparr>"
  let ?res = "\<lparr>res_dst = dst_mem (kst ?ls),
              res_offset = srcpos ?ls - push_bit 32 (scast inframes),
              res_reads = src_reads (kst ?ls),
              res_asserts = asserts ?ls\<rparr>"
  have some: "SDL_ResampleAudio ops g chans mem src inframes dmem dst outframes rate off = Some ?res"
    using ResampleAudio_Some [OF assms(3,4,5)] by (simp add: Let_def)
  have pos: "srcpos ?ls = off + scast outframes * rate"
    by (simp add: loop_srcpos of_nat_nat_sint [OF assms(2)])
  then have w: "res_offset ?res + push_bit 32 (scast inframes) = off + scast outframes * rate"
    by simp
  have i: "sint (res_offset ?res) + sint inframes * 2^32 = sint off + sint outframes * sint rate"
    if r: "- (2^63) \<le> sint (res_offset ?res) + sint inframes * 2^32"
      "sint (res_offset ?res) + sint inframes * 2^32 < 2^63"
      "sint off + sint outframes * sint rate < 2^63"
  proof -
    have "(word_of_int (sint (res_offset ?res) + sint inframes * 2^32) :: Sint64) =
          res_offset ?res + push_bit 32 (scast inframes)"
      by (simp add: push_bit_eq_mult)
    also have "\<dots> = word_of_int (sint off + sint outframes * sint rate)"
      unfolding w by simp
    finally have e: "(word_of_int (sint (res_offset ?res) + sint inframes * 2^32) :: Sint64) =
          word_of_int (sint off + sint outframes * sint rate)" .
    have "0 \<le> sint outframes * sint rate" using assms(1,2) by simp
    then have "- (2^63) \<le> sint off + sint outframes * sint rate"
      using sint_range64 [of off] by simp
    with e r show ?thesis by (intro word64_eq_int) simp_all
  qed
  show ?thesis using some w i by blast
qed

theorem ResampleAudio_offset_identity_witness:
  "\<exists>res. SDL_ResampleAudio int_ops
            (SDL_SetupAudioResampler int_ops None (\<lambda>_. 0) fresh_globals)
            2 (\<lambda>a. a) 0 3 (\<lambda>_. 0) 0 5 0x80000000 0x10 = Some res \<and>
         res_offset res + push_bit 32 (scast (3::Sint32)) = 0x10 + scast (5::Sint32) * 0x80000000"
proof -
  have h: "0 < sint (0x80000000::Sint64)" "0 \<le> sint (5::Sint32)"
    "1 \<le> sint (2::Sint32)" "sint (2::Sint32) \<le> 8"
    by simp_all
  from ResampleAudio_offset_identity [OF h fresh_setup_stereo, of int_ops "\<lambda>a. a" 0 3
      "\<lambda>_. 0" 0 "0x10"]
  show ?thesis by blast
qed


text \<open>
  Claim C3 says that with \<open>M = SDL_GetResamplerInputFrames(N, rate, offset)\<close> live input
  frames preceded by \<^verbatim>\<open>SDL_GetResamplerHistoryFrames() = 6\<close> frames of history, every
  sample \<^verbatim>\<open>SDL_ResampleAudio\<close> reads lies inside that buffer. The window of a kernel
  spans the frames \<open>srcindex - 4\<close> to \<open>srcindex + 5\<close>, and \<open>srcindex\<close> reaches
  \<open>M - 1\<close>: the call reads up to five frames past the live frames, which the caller
  supplies as padding (\<^verbatim>\<open>SDL_GetResamplerPaddingFrames\<close>). With one channel, one
  output frame, \<open>rate = 2^32\<close> and offset 0, \<open>M\<close> is 1 and the mono kernel reads the
  addresses \<open>-4\<close> to \<open>5\<close> of the source, outside \<open>[-6, 1)\<close>.
\<close>

theorem ResampleAudio_reads_counterexample:
  "SDL_GetResamplerInputFrames (scast (1::Sint32)) 0x100000000 0 = 1 \<and>
   map_option res_reads
     (SDL_ResampleAudio int_ops (SDL_SetupAudioResampler int_ops None (\<lambda>_. 0) fresh_globals)
        1 (\<lambda>a. a) 0 1 (\<lambda>_. 0) 0 1 0x100000000 0) = Some [-4, -3, -2, -1, 0, 1, 2, 3, 4, 5] \<and>
   \<not> set [-4, -3, -2, -1, 0, 1, 2, 3, 4, 5] \<subseteq>
       {0 - SDL_GetResamplerHistoryFrames * 1 ..< 0 + 1 * (1::int)}"
proof -
  have a: "SDL_GetResamplerInputFrames (scast (1::Sint32)) 0x100000000 0 = 1"
    by (simp add: SDL_GetResamplerInputFrames_def InputFrames_output_offset_def
      ResamplerMul_def ResamplerAdd_def sdiv64_def SDL_MAX_SINT64_def word_sless_alt
      signed_divide_int_def)
  have b: "map_option res_reads
     (SDL_ResampleAudio int_ops (SDL_SetupAudioResampler int_ops None (\<lambda>_. 0) fresh_globals)
        1 (\<lambda>a. a) 0 1 (\<lambda>_. 0) 0 1 0x100000000 0) = Some [-4, -3, -2, -1, 0, 1, 2, 3, 4, 5]"
    using ResampleAudio_Some [OF _ _ fresh_setup_mono, of int_ops "\<lambda>a. a" 0 1 "\<lambda>_. 0" 0 1
        "0x100000000" 0]
    by (simp add: Let_def ResampleAudio_body_def Mono_result tap_addrs_def
        RESAMPLER_ZERO_CROSSINGS_def upt_rec [of 0] upt_rec [of "Suc _"] numeral_eq_Suc)
  have c: "\<not> set [-4, -3, -2, -1, 0, 1, 2, 3, 4, 5] \<subseteq>
       {0 - SDL_GetResamplerHistoryFrames * 1 ..< 0 + 1 * (1::int)}"
    by (simp add: SDL_GetResamplerHistoryFrames_def resampler_macros)
  show ?thesis using a b c by blast
qed


text \<open>
  Claim C3, amended. For every \<open>chans\<close> in \<open>[1, 8]\<close>, \<open>rate > 0\<close>, output count
  \<open>N \<ge> 0\<close> and offset with \<open>-2^32 \<le> offset\<close>, for which the planning sum of
  \<^verbatim>\<open>SDL_GetResamplerInputFrames(N, rate, offset)\<close> does not overflow (its offset term
  \<open>offset + 2^32 - rate\<close> fits in 64 bits, and neither the multiply nor the add
  saturates), with \<open>M\<close> the value it returns and \<open>M \<cdot> chans < 2^31\<close> (the \<^verbatim>\<open>int\<close>
  product \<^verbatim>\<open>srcindex * chans\<close> does not overflow): when the table entry for \<open>chans\<close>
  holds a kernel that keeps to its 10-frame window (as the scalar kernels do), every
  source sample \<^verbatim>\<open>SDL_ResampleAudio\<close> reads lies within the \<open>M\<close> live frames
  extended by 5 frames before them (inside the 6 frames of history) and 5 frames after
  them (padding), and on every iteration \<open>-1 \<le> srcindex < M\<close>, as is \<open>rate > 0\<close>: the
  assertions hold.
\<close>

theorem ResampleAudio_reads_in_bounds:
  assumes chans: "1 \<le> sint chans" "sint chans \<le> 8"
    and rate: "0 < sint rate"
    and N: "0 \<le> sint outframes"
    and off: "- (2^32) \<le> sint off" "sint off + 2^32 - sint rate < 2^63"
    and hm: "ResamplerMul (scast outframes) rate = Some m"
    and hs: "ResamplerAdd m (- rate + off + 0x100000000) = Some s"
    and M: "inframes = scast (SDL_GetResamplerInputFrames (scast outframes) rate off)"
    and ov: "sint inframes * sint chans < 2^31"
    and k: "ResampleFrame g (sint (chans - 1)) = Some k"
    and w: "reads_within_window k (sint chans)"
  shows "\<exists>res. SDL_ResampleAudio ops g chans mem src inframes dmem dst outframes rate off
                  = Some res \<and>
               res_asserts res \<and>
               set (res_reads res) \<subseteq>
                 {src - 5 * sint chans ..< src + (sint inframes + 5) * sint chans}"
proof -
  have kb: "set (src_reads (k mem f d F fp alpha (sint chans) ks)) \<subseteq>
              set (src_reads ks) \<union> {f ..< f + 10 * sint chans}" for mem f d F fp alpha ks
    using w unfolding reads_within_window_def by blast
  let ?src = "src - sint (word_of_int (RESAMPLER_ZERO_CROSSINGS - 1) * chans)"
  let ?init = "\<lparr>srcpos = off, dstp = dst, kst = \<lparr>dst_mem = dmem, src_reads = []\<rparr>,
               asserts = (0 <s rate)\<rparr>"
  let ?ls = "fold (\<lambda>i. ResampleAudio_body ops (ResamplerFilter g) k chans mem ?src inframes rate)
               [0..<nat (sint outframes)] ?init"
  let ?res = "\<lparr>res_dst = dst_mem (kst ?ls),
               res_offset = srcpos ?ls - push_bit 32 (scast inframes),
               res_reads = src_reads (kst ?ls),
               res_asserts = asserts ?ls\<rparr>"
  have some: "SDL_ResampleAudio ops g chans mem src inframes dmem dst outframes rate off = Some ?res"
    using ResampleAudio_Some [OF chans k] by (simp add: Let_def)
  have Mi: "sint inframes = sint (SDL_GetResamplerInputFrames (scast outframes) rate off)"
    unfolding M by (rule sint_inframes)
  have pos: "- (2^32) \<le> sint (srcpos ?init + of_nat j * rate) \<and>
             sint (srcpos ?init + of_nat j * rate) div 2^32 < sint inframes"
    if "j < nat (sint outframes)" for j
    using planned_positions [OF rate N off hm hs that] by (simp add: Mi)
  have inv: "asserts ?ls = asserts ?init \<and>
         set (src_reads (kst ?ls)) \<subseteq>
           set (src_reads (kst ?init)) \<union>
             {?src - sint chans ..< ?src + (sint inframes + 9) * sint chans}"
    using kb chans ov pos by (rule loop_inv)
  have e1: "?src - sint chans = src - 5 * sint chans"
    by (simp only: sint_four_chans [OF chans])
  have e2: "?src + (sint inframes + 9) * sint chans = src + (sint inframes + 5) * sint chans"
    by (simp only: sint_four_chans [OF chans]) (simp add: algebra_simps)
  have inv': "asserts ?ls = asserts ?init \<and>
         set (src_reads (kst ?ls)) \<subseteq>
           set (src_reads (kst ?init)) \<union>
             {src - 5 * sint chans ..< src + (sint inframes + 5) * sint chans}"
    using inv unfolding e1 e2 .
  have "res_asserts ?res \<and>
      set (res_reads ?res) \<subseteq> {src - 5 * sint chans ..< src + (sint inframes + 5) * sint chans}"
    using inv' rate by (simp add: word_sless_alt)
  then show ?thesis using some by blast
qed

text \<open>
  The instance is a stereo call after the scalar setup that carries the offset \<open>2^32\<close>
  into a call at the rate \<open>2^31\<close>: two output frames need \<open>M = 2\<close> input frames.
\<close>

theorem ResampleAudio_reads_in_bounds_witness:
  "\<exists>res. SDL_ResampleAudio int_ops (SDL_SetupAudioResampler int_ops None (\<lambda>_. 0) fresh_globals)
            2 (\<lambda>a. a) 0 2 (\<lambda>_. 0) 0 2 0x80000000 0x100000000 = Some res \<and>
         res_asserts res \<and>
         set (res_reads res) \<subseteq> {- 10 ..< 14}"
  using ResampleAudio_reads_in_bounds [of 2 "0x80000000" 2 "0x100000000" "0x100000000"
      "0x280000000" 2 "SDL_SetupAudioResampler int_ops None (\<lambda>_. 0) fresh_globals"
      "ResampleFrame_Stereo int_ops" int_ops "\<lambda>a. a" 0 "\<lambda>_. 0" 0]
    fresh_setup_stereo Stereo_window [of int_ops]
  by (simp add: SDL_GetResamplerInputFrames_def InputFrames_output_offset_def
      ResamplerMul_def ResamplerAdd_def sdiv64_def SDL_MAX_SINT64_def word_sless_alt
      signed_divide_int_def)

end
